theory Spec2Isabelle
  imports Complex_Main "HOL-Library.AList" "HOL-Library.Sublist"
begin

section \<open>Exceptions, log records and external collaborators\<close>

text \<open>
  A Python exception is a value: its class and the text \<^verbatim>\<open>str(e)\<close> yields. Only
  classes derived from \<^verbatim>\<open>Exception\<close> are modelled (every \<^verbatim>\<open>except Exception\<close>
  of the source catches all of them); task cancellation is outside the model.
\<close>

datatype exn_class =
  ValueError | KeyError | TypeError | RuntimeError
  | JSONDecodeError | ValidationError | KafkaError | OtherError

datatype exn = Exn (exn_class: exn_class) (exn_str: string)

datatype level = DEBUG | INFO | WARNING | ERROR

type_synonym log_record = "level \<times> string"

text \<open>
  A log record is its level and its message; the \<^verbatim>\<open>extra\<close> dictionaries are left out.

  The collaborators the source calls but does not define. \<open>'h\<close> is a LightRAG
  object, \<open>'w\<close> the state of everything outside the process (clock, database, broker).
  A call that may raise returns \<open>Inl e\<close>, or \<open>Some e\<close> when it has no result.
  \<^verbatim>\<open>time.time()\<close> is a read of the world that may change it, so two reads in a row
  may differ; times are exact reals (the rounding of floats is not modelled).
\<close>

record ('h, 'w) env =
  time_time :: "'w \<Rightarrow> real \<times> 'w"
  LightRAG :: "string \<Rightarrow> 'w \<Rightarrow> (exn + 'h) \<times> 'w"
  initialize_storages :: "'h \<Rightarrow> 'w \<Rightarrow> exn option \<times> 'w"
  finalize_storages :: "'h \<Rightarrow> 'w \<Rightarrow> exn option \<times> 'w"
  ainsert :: "'h \<Rightarrow> string \<Rightarrow> string \<Rightarrow> 'w \<Rightarrow> exn option \<times> 'w"
  b64decode :: "string \<Rightarrow> exn + string"
  gzip_read :: "string \<Rightarrow> exn + string"
  utf8_decode :: "string \<Rightarrow> exn + string"
  soup_text :: "string \<Rightarrow> exn + string"

section \<open>rag/pool.py\<close>

record 'h LightRAGWrapper =
  rag :: 'h
  w_collection_id :: string
  created_at :: real
  last_used :: real

text \<open>
  The process state: the pool's \<^verbatim>\<open>OrderedDict\<close> as an association list, least
  recently used entry first; the pool's two settings; the processor's semaphore value
  and counters; the outside world; and what the loggers have emitted.
\<close>

record ('h, 'w) state =
  instances :: "(string \<times> 'h LightRAGWrapper) list"
  max_instances :: int
  ttl_seconds :: int
  semaphore :: int
  jobs_processed :: int
  jobs_failed :: int
  world :: 'w
  logs :: "log_record list"

definition logger :: "level \<Rightarrow> string \<Rightarrow> ('h, 'w) state \<Rightarrow> ('h, 'w) state" where
  "logger lv msg s = s\<lparr>logs := logs s @ [(lv, msg)]\<rparr>"

text \<open>\<^verbatim>\<open>repr\<close> of a plain string key, as \<^verbatim>\<open>str(KeyError(key))\<close> prints it.\<close>

definition repr :: "string \<Rightarrow> string" where
  "repr k = [CHR 0x27] @ k @ [CHR 0x27]"

text \<open>\<^verbatim>\<open>OrderedDict.pop(key)\<close>: raises KeyError when the key is absent.\<close>

definition pop :: "string \<Rightarrow> (string \<times> 'v) list \<Rightarrow> exn + ('v \<times> (string \<times> 'v) list)" where
  "pop k d = (case map_of d k of
      None \<Rightarrow> Inl (Exn KeyError (repr k))
    | Some v \<Rightarrow> Inr (v, AList.delete k d))"

text \<open>
  The recurring \<^verbatim>\<open>try: await wrapper.rag.finalize_storages() ... except Exception as e:
  logger.warning(...)\<close>: \<open>on_ok\<close> is the record logged inside the \<^verbatim>\<open>try\<close> after the
  call, \<open>warn\<close> the prefix of the warning.
\<close>

definition try_finalize ::
  "('h, 'w) env \<Rightarrow> 'h LightRAGWrapper \<Rightarrow> log_record option \<Rightarrow> string \<Rightarrow>
   ('h, 'w) state \<Rightarrow> ('h, 'w) state" where
  "try_finalize E wr on_ok warn s =
     (case finalize_storages E (rag wr) (world s) of
        (None, w1) \<Rightarrow>
          (case on_ok of
             None \<Rightarrow> s\<lparr>world := w1\<rparr>
           | Some (lv, msg) \<Rightarrow> logger lv msg (s\<lparr>world := w1\<rparr>))
      | (Some e, w1) \<Rightarrow> logger WARNING (warn @ exn_str e) (s\<lparr>world := w1\<rparr>))"

text \<open>
  The eviction loop of \<^verbatim>\<open>get\<close>:
  \<^verbatim>\<open>while len(self.instances) >= self.max_instances: popitem(last=False); ...\<close>.
  \<^verbatim>\<open>popitem\<close> on an empty dictionary raises KeyError.
\<close>

function evict_oldest :: "('h, 'w) env \<Rightarrow> ('h, 'w) state \<Rightarrow> exn option \<times> ('h, 'w) state" where
  "evict_oldest E s =
     (if int (length (instances s)) \<ge> max_instances s then
        (case instances s of
           [] \<Rightarrow> (Some (Exn KeyError (repr ''dictionary is empty'')), s)
         | (oldest_id, oldest_wrapper) # rest \<Rightarrow>
             evict_oldest E
               (try_finalize E oldest_wrapper None ''Error finalizing evicted RAG instance: ''
                 (logger INFO (''Evicting LightRAG instance for collection: '' @ oldest_id)
                   (s\<lparr>instances := rest\<rparr>))))
      else (None, s))"
  by pat_completeness auto

termination evict_oldest
  by (relation "measure (\<lambda>(E, s). length (instances s))")
     (auto simp: try_finalize_def logger_def split: prod.splits option.splits)

declare evict_oldest.simps [simp del]

text \<open>
  \<^verbatim>\<open>_create_instance\<close>: the workspace name, the constructor, then
  \<^verbatim>\<open>initialize_storages\<close>. (The \<^verbatim>\<open>os.environ.setdefault\<close> calls are not modelled.)
\<close>

definition workspace_name :: "string \<Rightarrow> string" where
  "workspace_name cid = ''ws_'' @ map (\<lambda>c. if c = CHR ''-'' then CHR ''_'' else c) cid"

definition create_instance ::
  "('h, 'w) env \<Rightarrow> string \<Rightarrow> ('h, 'w) state \<Rightarrow> (exn + 'h) \<times> ('h, 'w) state" where
  "create_instance E cid s =
     (case LightRAG E (workspace_name cid) (world s) of
        (Inl e, w1) \<Rightarrow> (Inl e, s\<lparr>world := w1\<rparr>)
      | (Inr r, w1) \<Rightarrow>
          (case initialize_storages E r w1 of
             (Some e, w2) \<Rightarrow> (Inl e, s\<lparr>world := w2\<rparr>)
           | (None, w2) \<Rightarrow>
               (Inr r, logger INFO (''LightRAG instance initialized for workspace: '' @ cid)
                         (s\<lparr>world := w2\<rparr>))))"

text \<open>
  \<^verbatim>\<open>LightRAGPool.get\<close>. On a hit the entry moves to the end and its wrapper gets a
  new \<^verbatim>\<open>last_used\<close>; on a miss the eviction loop runs, the instance is created and
  stored under the key (\<^verbatim>\<open>self.instances[collection_id] = ...\<close>), the two
  \<^verbatim>\<open>default_factory\<close> calls reading the clock one after the other. The lock
  serialises callers; one call is one step here.
\<close>

definition get ::
  "('h, 'w) env \<Rightarrow> string \<Rightarrow> ('h, 'w) state \<Rightarrow> (exn + 'h) \<times> ('h, 'w) state" where
  "get E cid s =
     (case map_of (instances s) cid of
        Some wrapper \<Rightarrow>
          (case time_time E (world s) of
             (now, w1) \<Rightarrow>
               (Inr (rag wrapper),
                logger DEBUG (''Reusing existing LightRAG instance for collection: '' @ cid)
                  (s\<lparr>instances := AList.delete cid (instances s) @ [(cid, wrapper\<lparr>last_used := now\<rparr>)],
                     world := w1\<rparr>)))
      | None \<Rightarrow>
          (case evict_oldest E s of
             (Some e, s1) \<Rightarrow> (Inl e, s1)
           | (None, s1) \<Rightarrow>
               (case create_instance E cid
                       (logger INFO (''Creating new LightRAG instance for collection: '' @ cid) s1) of
                  (Inl e, s2) \<Rightarrow> (Inl e, s2)
                | (Inr r, s2) \<Rightarrow>
                    (case time_time E (world s2) of
                       (t1, w1) \<Rightarrow>
                         (case time_time E w1 of
                            (t2, w2) \<Rightarrow>
                              (Inr r,
                               s2\<lparr>instances :=
                                     AList.update cid
                                       \<lparr>rag = r, w_collection_id = cid, created_at = t1, last_used = t2\<rparr>
                                       (instances s2),
                                   world := w2\<rparr>))))))"

definition release :: "('h, 'w) env \<Rightarrow> string \<Rightarrow> ('h, 'w) state \<Rightarrow> ('h, 'w) state" where
  "release E cid s =
     (case map_of (instances s) cid of
        None \<Rightarrow> s
      | Some wrapper \<Rightarrow>
          try_finalize E wrapper
            (Some (INFO, ''Released LightRAG instance for collection: '' @ cid))
            ''Error finalizing RAG instance: ''
            (s\<lparr>instances := AList.delete cid (instances s)\<rparr>))"

text \<open>\<^verbatim>\<open>cleanup_expired\<close>: the list of expired keys is built first, then each is popped.\<close>

definition is_expired :: "real \<Rightarrow> int \<Rightarrow> 'h LightRAGWrapper \<Rightarrow> bool" where
  "is_expired now ttl wrapper \<longleftrightarrow> now - last_used wrapper > real_of_int ttl"

fun cleanup_loop ::
  "('h, 'w) env \<Rightarrow> string list \<Rightarrow> ('h, 'w) state \<Rightarrow> exn option \<times> ('h, 'w) state" where
  "cleanup_loop E [] s = (None, s)"
| "cleanup_loop E (cid # rest) s =
     (case pop cid (instances s) of
        Inl e \<Rightarrow> (Some e, s)
      | Inr (wrapper, d) \<Rightarrow>
          cleanup_loop E rest
            (try_finalize E wrapper
               (Some (INFO, ''Cleaned up expired LightRAG instance: '' @ cid))
               ''Error finalizing expired RAG instance: ''
               (s\<lparr>instances := d\<rparr>)))"

definition cleanup_expired ::
  "('h, 'w) env \<Rightarrow> ('h, 'w) state \<Rightarrow> (exn + int) \<times> ('h, 'w) state" where
  "cleanup_expired E s =
     (case time_time E (world s) of
        (now, w1) \<Rightarrow>
          (let expired = map fst (filter (\<lambda>(cid, wrapper). is_expired now (ttl_seconds s) wrapper)
                                    (instances s))
           in case cleanup_loop E expired (s\<lparr>world := w1\<rparr>) of
                (Some e, s') \<Rightarrow> (Inl e, s')
              | (None, s') \<Rightarrow> (Inr (int (length expired)), s')))"

text \<open>Decimal \<^verbatim>\<open>str\<close> of an integer, for the messages that interpolate one.\<close>

fun str_nat :: "nat \<Rightarrow> string" where
  "str_nat n =
     (if n < 10 then [''0123456789'' ! n]
      else str_nat (n div 10) @ [''0123456789'' ! (n mod 10)])"

declare str_nat.simps [simp del]

definition str_int :: "int \<Rightarrow> string" where
  "str_int i = (if i < 0 then CHR ''-'' # str_nat (nat (- i)) else str_nat (nat i))"

definition close_all :: "('h, 'w) env \<Rightarrow> ('h, 'w) state \<Rightarrow> ('h, 'w) state" where
  "close_all E s =
     (let s1 = logger INFO (''Closing '' @ str_nat (length (instances s)) @ '' LightRAG instances...'') s;
          s2 = fold (\<lambda>(cid, wrapper).
                      try_finalize E wrapper
                        (Some (DEBUG, ''Closed LightRAG instance: '' @ cid))
                        (''Error closing RAG instance '' @ cid @ '': ''))
                    (instances s1) s1
      in logger INFO ''All LightRAG instances closed'' (s2\<lparr>instances := []\<rparr>))"

text \<open>
  \<^verbatim>\<open>LightRAGPool.__init__\<close> and \<^verbatim>\<open>DocumentProcessor.__init__\<close>: an empty pool, the
  two pool settings, a semaphore of \<^verbatim>\<open>max_workers\<close> slots. \<^verbatim>\<open>asyncio.Semaphore\<close>
  refuses a negative initial value.
\<close>

record Settings =
  max_workers :: int
  max_rag_instances :: int
  rag_instance_ttl :: int

definition init_state :: "Settings \<Rightarrow> 'w \<Rightarrow> exn + ('h, 'w) state" where
  "init_state settings w =
     (if max_workers settings < 0 then Inl (Exn ValueError ''Semaphore initial value must be >= 0'')
      else Inr \<lparr>instances = [], max_instances = max_rag_instances settings,
                ttl_seconds = rag_instance_ttl settings, semaphore = max_workers settings,
                jobs_processed = 0, jobs_failed = 0, world = w, logs = []\<rparr>)"

text \<open>A caller of the pool: one of its four operations, and a sequence of them.\<close>

datatype pool_op = Get string | Release string | EvictExpired | CloseAll

fun apply_op :: "('h, 'w) env \<Rightarrow> pool_op \<Rightarrow> ('h, 'w) state \<Rightarrow> ('h, 'w) state" where
  "apply_op E (Get cid) s = snd (get E cid s)"
| "apply_op E (Release cid) s = release E cid s"
| "apply_op E EvictExpired s = snd (cleanup_expired E s)"
| "apply_op E CloseAll s = close_all E s"

definition pool_inv :: "('h, 'w) state \<Rightarrow> bool" where
  "pool_inv s \<longleftrightarrow>
     int (length (instances s)) \<le> max_instances s \<and> distinct (map fst (instances s))"

text \<open>The world after \<^verbatim>\<open>finalize_storages\<close> has been called on each handle in turn.\<close>

definition finalize_each :: "('h, 'w) env \<Rightarrow> 'h list \<Rightarrow> 'w \<Rightarrow> 'w" where
  "finalize_each E hs w = fold (\<lambda>h w'. snd (finalize_storages E h w')) hs w"

section \<open>processor/html\_cleaner.py\<close>

text \<open>
  The body of the \<^verbatim>\<open>try\<close> in \<^verbatim>\<open>decompress_html\<close>: base64, gzip, UTF-8, each a
  library call that may raise.
\<close>

definition decode_gzip_base64 :: "('h, 'w) env \<Rightarrow> string \<Rightarrow> exn + string" where
  "decode_gzip_base64 E compressed =
     (case b64decode E compressed of
        Inl e \<Rightarrow> Inl e
      | Inr compressed_bytes \<Rightarrow>
          (case gzip_read E compressed_bytes of
             Inl e \<Rightarrow> Inl e
           | Inr raw \<Rightarrow> utf8_decode E raw))"

definition decompress_html ::
  "('h, 'w) env \<Rightarrow> string \<Rightarrow> string \<Rightarrow> ('h, 'w) state \<Rightarrow> (exn + string) \<times> ('h, 'w) state" where
  "decompress_html E compressed encoding s =
     (if encoding = ''plain'' \<or> compressed = [] then (Inr compressed, s)
      else if encoding = ''gzip+base64'' then
        (case decode_gzip_base64 E compressed of
           Inr html \<Rightarrow> (Inr html, s)
         | Inl e \<Rightarrow>
             (Inl (Exn ValueError (''Failed to decompress HTML: '' @ exn_str e)),
              logger ERROR (''Failed to decompress HTML: '' @ exn_str e) s))
      else (Inl (Exn ValueError (''Unknown encoding: '' @ encoding)), s))"

text \<open>
  \<^verbatim>\<open>clean_html_to_text\<close>: \<open>soup_text\<close> stands for the body of its \<^verbatim>\<open>try\<close>
  (BeautifulSoup, tag removal, whitespace clean-up), all of it library code.
\<close>

definition clean_html_to_text ::
  "('h, 'w) env \<Rightarrow> string \<Rightarrow> ('h, 'w) state \<Rightarrow> string \<times> ('h, 'w) state" where
  "clean_html_to_text E html s =
     (if html = [] then ([], s)
      else (case soup_text E html of
              Inr t \<Rightarrow> (t, s)
            | Inl e \<Rightarrow> ([], logger ERROR (''Failed to clean HTML: '' @ exn_str e) s)))"

section \<open>models/messages.py\<close>

record PageContent =
  html :: string
  page_text :: string
  title :: string
  content_type :: string
  encoding :: string
  html_size :: int

record IndexingJobMessage =
  job_id :: int
  request_id :: int
  project_id :: int
  user_id :: string
  collection_id :: string
  url :: string
  depth :: int
  parent_url :: string
  content :: "PageContent option"
  discovered_at :: real
  metadata :: "(string \<times> string) list"

record ProcessingResult =
  r_job_id :: int
  r_collection_id :: string
  r_url :: string
  success :: bool
  error_message :: "string option"
  text_length :: int
  processing_time_ms :: int

section \<open>processor/pipeline.py\<close>

text \<open>Python's \<^verbatim>\<open>int(x)\<close> on a float truncates towards zero.\<close>

definition py_int :: "real \<Rightarrow> int" where
  "py_int x = (if 0 \<le> x then \<lfloor>x\<rfloor> else \<lceil>x\<rceil>)"

definition extract_text ::
  "('h, 'w) env \<Rightarrow> IndexingJobMessage \<Rightarrow> ('h, 'w) state \<Rightarrow> (exn + string) \<times> ('h, 'w) state" where
  "extract_text E job s =
     (case content job of
        None \<Rightarrow> (Inl (Exn ValueError ''Job has no content''), s)
      | Some c \<Rightarrow>
          if page_text c \<noteq> [] then
            (Inr (page_text c),
             logger DEBUG (''Using pre-extracted text for job '' @ str_int (job_id job)) s)
          else if html c \<noteq> [] then
            (case decompress_html E (html c) (encoding c)
                    (logger DEBUG (''Extracting text from HTML for job '' @ str_int (job_id job)) s) of
               (Inl e, s1) \<Rightarrow> (Inl e, s1)
             | (Inr h, s1) \<Rightarrow>
                 (case clean_html_to_text E h s1 of (t, s2) \<Rightarrow> (Inr t, s2)))
          else (Inl (Exn ValueError ''Job has neither text nor HTML content''), s))"

text \<open>The \<^verbatim>\<open>try\<close> block of \<^verbatim>\<open>_process_internal\<close>.\<close>

definition process_try ::
  "('h, 'w) env \<Rightarrow> IndexingJobMessage \<Rightarrow> real \<Rightarrow> ('h, 'w) state \<Rightarrow>
   (exn + ProcessingResult) \<times> ('h, 'w) state" where
  "process_try E job start_time s =
     (case extract_text E job s of
        (Inl e, s1) \<Rightarrow> (Inl e, s1)
      | (Inr txt, s1) \<Rightarrow>
          if txt = [] then (Inl (Exn ValueError ''No text content extracted from document''), s1)
          else
            (case get E (collection_id job) s1 of
               (Inl e, s2) \<Rightarrow> (Inl e, s2)
             | (Inr r, s2) \<Rightarrow>
                 (let doc_id = url job;
                      s3 = logger DEBUG (''Inserting document into LightRAG: '' @ doc_id) s2
                  in case ainsert E r doc_id txt (world s3) of
                       (Some e, w1) \<Rightarrow> (Inl e, s3\<lparr>world := w1\<rparr>)
                     | (None, w1) \<Rightarrow>
                         (case time_time E w1 of
                            (t, w2) \<Rightarrow>
                              (Inr \<lparr>r_job_id = job_id job, r_collection_id = collection_id job,
                                    r_url = url job, success = True, error_message = None,
                                    text_length = int (length txt),
                                    processing_time_ms = py_int ((t - start_time) * 1000)\<rparr>,
                               logger INFO (''Successfully processed job '' @ str_int (job_id job))
                                 (s3\<lparr>world := w2, jobs_processed := jobs_processed s3 + 1\<rparr>))))))"

text \<open>
  \<^verbatim>\<open>_process_internal\<close>: the \<^verbatim>\<open>try\<close> block and its \<^verbatim>\<open>except Exception\<close>. The
  result is \<open>Inr\<close> of a \<^verbatim>\<open>ProcessingResult\<close>, or \<open>Inl\<close> of an exception that leaves
  the function.
\<close>

definition process_internal ::
  "('h, 'w) env \<Rightarrow> IndexingJobMessage \<Rightarrow> ('h, 'w) state \<Rightarrow>
   (exn + ProcessingResult) \<times> ('h, 'w) state" where
  "process_internal E job s =
     (case time_time E (world s) of
        (start_time, w0) \<Rightarrow>
          (case process_try E job start_time
                  (logger INFO (''Processing job '' @ str_int (job_id job)) (s\<lparr>world := w0\<rparr>)) of
             (Inr res, s1) \<Rightarrow> (Inr res, s1)
           | (Inl e, s1) \<Rightarrow>
               (case time_time E (world s1) of
                  (t, w1) \<Rightarrow>
                    (Inr \<lparr>r_job_id = job_id job, r_collection_id = collection_id job,
                          r_url = url job, success = False, error_message = Some (exn_str e),
                          text_length = 0,
                          processing_time_ms = py_int ((t - start_time) * 1000)\<rparr>,
                     logger ERROR (''Failed to process job '' @ str_int (job_id job) @ '': '' @ exn_str e)
                       (s1\<lparr>world := w1, jobs_failed := jobs_failed s1 + 1\<rparr>)))))"

text \<open>
  \<^verbatim>\<open>process\<close>: \<^verbatim>\<open>async with self._semaphore\<close>. With no free slot the caller is
  suspended until another call releases one; in a single thread of calls nobody does, so
  the call never returns: \<open>None\<close>.
\<close>

definition process ::
  "('h, 'w) env \<Rightarrow> IndexingJobMessage \<Rightarrow> ('h, 'w) state \<Rightarrow>
   ((exn + ProcessingResult) \<times> ('h, 'w) state) option" where
  "process E job s =
     (if semaphore s \<le> 0 then None
      else (case process_internal E job (s\<lparr>semaphore := semaphore s - 1\<rparr>) of
              (res, s1) \<Rightarrow> Some (res, s1\<lparr>semaphore := semaphore s1 + 1\<rparr>)))"

section \<open>consumer/kafka\_consumer.py\<close>

text \<open>
  A consumed record: its deserialised value, partition and offset. What the iterator
  \<^verbatim>\<open>async for message in self.consumer\<close> does next is the environment's choice: it
  yields a record, it raises, or \<^verbatim>\<open>stop()\<close> runs in another task while the loop waits
  (its first statement is \<^verbatim>\<open>self._running = False\<close>). The end of the list is the
  stopped consumer ending the iteration.
\<close>

record 'v ConsumerRecord =
  rec_value :: 'v
  partition :: int
  offset :: int

datatype 'v fetched = Message "'v ConsumerRecord" | FetchRaises exn | StopCalled

text \<open>
  What the loop is constructed with and calls: the validation
  \<^verbatim>\<open>IndexingJobMessage(**message.value)\<close>, the \<^verbatim>\<open>message_handler\<close> (\<open>None\<close>: it never
  returns) and \<^verbatim>\<open>self.consumer.commit()\<close>. \<open>'a\<close> is the state they act on.
\<close>

record ('v, 'r, 'a) consumer_env =
  parse :: "'v \<Rightarrow> exn + IndexingJobMessage"
  message_handler :: "IndexingJobMessage \<Rightarrow> 'a \<Rightarrow> ((exn + 'r) \<times> 'a) option"
  commit :: "'a \<Rightarrow> exn option \<times> 'a"

text \<open>
  The loop's observable actions on a record, named by (partition, offset): the record
  is read, the handler is called, the handler call ends (it returned or raised), and
  \<^verbatim>\<open>commit()\<close> is called. The consumer's \<open>trace\<close> field lists them as they happen; it is
  not an attribute of the class, it is there so that their order can be stated.
  \<open>started\<close> stands for \<^verbatim>\<open>self.consumer\<close> not being \<^verbatim>\<open>None\<close>.
\<close>

datatype event =
  Received "int \<times> int" | Dispatched "int \<times> int" | Finished "int \<times> int"
  | CommitCalled "int \<times> int"

record 'a consumer =
  started :: bool
  running :: bool
  tasks :: "nat list"
  app :: 'a
  consumer_logs :: "log_record list"
  trace :: "event list"

definition key :: "'v ConsumerRecord \<Rightarrow> int \<times> int" where
  "key m = (partition m, offset m)"

definition clog :: "level \<Rightarrow> string \<Rightarrow> 'a consumer \<Rightarrow> 'a consumer" where
  "clog lv msg s = s\<lparr>consumer_logs := consumer_logs s @ [(lv, msg)]\<rparr>"

definition emit :: "event \<Rightarrow> 'a consumer \<Rightarrow> 'a consumer" where
  "emit ev s = s\<lparr>trace := trace s @ [ev]\<rparr>"

text \<open>
  The two \<^verbatim>\<open>except\<close> clauses of the inner \<^verbatim>\<open>try\<close>, for an exception \<open>e\<close> raised in
  its body. An exception raised by the \<^verbatim>\<open>commit()\<close> of the first clause leaves the loop.
\<close>

definition on_exception ::
  "('v, 'r, 'a) consumer_env \<Rightarrow> 'v ConsumerRecord \<Rightarrow> exn \<Rightarrow> 'a consumer \<Rightarrow>
   exn option \<times> 'a consumer" where
  "on_exception C m e s =
     (if exn_class e = JSONDecodeError then
        (let s1 = emit (CommitCalled (key m)) (clog ERROR ''Failed to decode message'' s)
         in case commit C (app s1) of (r, a) \<Rightarrow> (r, s1\<lparr>app := a\<rparr>))
      else (None, clog ERROR ''Error processing message'' s))"

text \<open>The inner \<^verbatim>\<open>try\<close> for one record: parse, log, handler, commit, log.\<close>

definition handle_message ::
  "('v, 'r, 'a) consumer_env \<Rightarrow> 'v ConsumerRecord \<Rightarrow> 'a consumer \<Rightarrow>
   (exn option \<times> 'a consumer) option" where
  "handle_message C m s =
     (case parse C (rec_value m) of
        Inl e \<Rightarrow> Some (on_exception C m e s)
      | Inr job \<Rightarrow>
          (let s1 = emit (Dispatched (key m)) (clog INFO ''Received indexing job'' s)
           in case message_handler C job (app s1) of
                None \<Rightarrow> None
              | Some (Inl e, a) \<Rightarrow>
                  Some (on_exception C m e (emit (Finished (key m)) (s1\<lparr>app := a\<rparr>)))
              | Some (Inr res, a) \<Rightarrow>
                  (let s2 = emit (CommitCalled (key m)) (emit (Finished (key m)) (s1\<lparr>app := a\<rparr>))
                   in case commit C (app s2) of
                        (Some e, a') \<Rightarrow> Some (on_exception C m e (s2\<lparr>app := a'\<rparr>))
                      | (None, a') \<Rightarrow> Some (None, clog DEBUG ''Committed offset'' (s2\<lparr>app := a'\<rparr>)))))"

fun consume_loop ::
  "('v, 'r, 'a) consumer_env \<Rightarrow> 'v fetched list \<Rightarrow> 'a consumer \<Rightarrow>
   (exn option \<times> 'a consumer) option" where
  "consume_loop C [] s = Some (None, s)"
| "consume_loop C (FetchRaises e # rest) s = Some (Some e, s)"
| "consume_loop C (StopCalled # rest) s = consume_loop C rest (s\<lparr>running := False\<rparr>)"
| "consume_loop C (Message m # rest) s =
     (let s0 = emit (Received (key m)) s
      in if \<not> running s0 then Some (None, s0)
         else (case handle_message C m s0 of
                 None \<Rightarrow> None
               | Some (Some e, s1) \<Rightarrow> Some (Some e, s1)
               | Some (None, s1) \<Rightarrow> consume_loop C rest s1))"

text \<open>
  \<^verbatim>\<open>consume\<close>: the guard, the loop, and the outer \<^verbatim>\<open>except KafkaError\<close> that logs
  and re-raises.
\<close>

definition consume ::
  "('v, 'r, 'a) consumer_env \<Rightarrow> 'v fetched list \<Rightarrow> 'a consumer \<Rightarrow>
   (exn option \<times> 'a consumer) option" where
  "consume C stream s =
     (if \<not> started s then
        Some (Some (Exn RuntimeError ''Consumer not started. Call start() first.''), s)
      else (case consume_loop C stream (clog INFO ''Starting message consumption loop...'' s) of
              None \<Rightarrow> None
            | Some (None, s1) \<Rightarrow> Some (None, s1)
            | Some (Some e, s1) \<Rightarrow>
                if exn_class e = KafkaError
                then Some (Some e, clog ERROR (''Kafka error: '' @ exn_str e) s1)
                else Some (Some e, s1)))"

text \<open>
  Reading a trace: the records read, the commits made, the handler calls in flight
  after it, and whether it is the trace of a loop that handles one record at a time
  (each record's dispatch, end of call and commit calls lie between its read and the
  next read, in this order).
\<close>

fun reads :: "event list \<Rightarrow> (int \<times> int) list" where
  "reads [] = []"
| "reads (Received k # es) = k # reads es"
| "reads (e # es) = reads es"

fun commits :: "event list \<Rightarrow> (int \<times> int) list" where
  "commits [] = []"
| "commits (CommitCalled k # es) = k # commits es"
| "commits (e # es) = commits es"

fun in_flight :: "event list \<Rightarrow> int" where
  "in_flight [] = 0"
| "in_flight (Dispatched k # es) = in_flight es + 1"
| "in_flight (Finished k # es) = in_flight es - 1"
| "in_flight (e # es) = in_flight es"

datatype phase = Idle | Got "int \<times> int" | InFlight "int \<times> int" | Done "int \<times> int"
  | Decided "int \<times> int"

fun phase_step :: "phase \<Rightarrow> event \<Rightarrow> phase option" where
  "phase_step (InFlight j) (Received k) = None"
| "phase_step ph (Received k) = Some (Got k)"
| "phase_step ph (Dispatched k) = (if ph = Got k then Some (InFlight k) else None)"
| "phase_step ph (Finished k) = (if ph = InFlight k then Some (Done k) else None)"
| "phase_step ph (CommitCalled k) =
     (if ph = Got k \<or> ph = Done k \<or> ph = Decided k then Some (Decided k) else None)"

fun phase_run :: "phase \<Rightarrow> event list \<Rightarrow> phase option" where
  "phase_run ph [] = Some ph"
| "phase_run ph (e # es) = (case phase_step ph e of None \<Rightarrow> None | Some ph' \<Rightarrow> phase_run ph' es)"

definition sequential :: "event list \<Rightarrow> bool" where
  "sequential tr \<longleftrightarrow> (case phase_run Idle tr of None \<Rightarrow> False | Some (InFlight k) \<Rightarrow> False | Some ph \<Rightarrow> True)"

fun messages :: "'v fetched list \<Rightarrow> 'v ConsumerRecord list" where
  "messages [] = []"
| "messages (Message m # rest) = m # messages rest"
| "messages (f # rest) = messages rest"

text \<open>
  For reasoning about traces: whether a handler call is in flight in a phase, the
  record a phase is about, and the phases in which no call is in flight.
\<close>

definition busy :: "phase \<Rightarrow> int" where
  "busy ph = (case ph of InFlight k \<Rightarrow> 1 | _ \<Rightarrow> 0)"

fun current :: "phase \<Rightarrow> (int \<times> int) list" where
  "current Idle = []"
| "current (Got k) = [k]"
| "current (InFlight k) = [k]"
| "current (Done k) = [k]"
| "current (Decided k) = [k]"

definition settled :: "phase \<Rightarrow> bool" where
  "settled ph \<longleftrightarrow> (case ph of InFlight k \<Rightarrow> False | _ \<Rightarrow> True)"

text \<open>
  What a trace says was done, done again and checked against the records. The state is
  the current record, whether the handler has been called on it, the records still to
  come, and the state that the handler and the broker act on. A read takes the next
  record, and is allowed only when the record before it has been dealt with (its
  payload does not validate, or the handler has been called on it); a dispatch calls
  the handler on the current record's job, once; the end of a call needs the call; a
  commit calls \<^verbatim>\<open>commit\<close>, and needs the current record to have been dealt with.
  \<open>None\<close> when the trace does not fit, or a handler call never returns.
\<close>

definition dealt ::
  "('v, 'r, 'a) consumer_env \<Rightarrow> 'v ConsumerRecord option \<Rightarrow> bool \<Rightarrow> bool" where
  "dealt C cur seen \<longleftrightarrow>
     (case cur of None \<Rightarrow> True | Some m \<Rightarrow> seen \<or> isl (parse C (rec_value m)))"

fun replay_step ::
  "('v, 'r, 'a) consumer_env \<Rightarrow> event \<Rightarrow>
   'v ConsumerRecord option \<times> bool \<times> 'v ConsumerRecord list \<times> 'a \<Rightarrow>
   ('v ConsumerRecord option \<times> bool \<times> 'v ConsumerRecord list \<times> 'a) option" where
  "replay_step C (Received k) (cur, seen, ms, a) =
     (case ms of
        [] \<Rightarrow> None
      | m # ms' \<Rightarrow> if key m = k \<and> dealt C cur seen then Some (Some m, False, ms', a) else None)"
| "replay_step C (Dispatched k) (cur, seen, ms, a) =
     (case cur of
        None \<Rightarrow> None
      | Some m \<Rightarrow>
          if key m = k \<and> \<not> seen then
            (case parse C (rec_value m) of
               Inl e \<Rightarrow> None
             | Inr job \<Rightarrow>
                 (case message_handler C job a of
                    None \<Rightarrow> None
                  | Some (res, a') \<Rightarrow> Some (cur, True, ms, a')))
          else None)"
| "replay_step C (Finished k) (cur, seen, ms, a) =
     (case cur of
        None \<Rightarrow> None
      | Some m \<Rightarrow> if key m = k \<and> seen then Some (cur, seen, ms, a) else None)"
| "replay_step C (CommitCalled k) (cur, seen, ms, a) =
     (case cur of
        None \<Rightarrow> None
      | Some m \<Rightarrow>
          if key m = k \<and> dealt C cur seen then Some (cur, seen, ms, snd (commit C a)) else None)"

fun replay ::
  "('v, 'r, 'a) consumer_env \<Rightarrow> event list \<Rightarrow>
   'v ConsumerRecord option \<times> bool \<times> 'v ConsumerRecord list \<times> 'a \<Rightarrow>
   ('v ConsumerRecord option \<times> bool \<times> 'v ConsumerRecord list \<times> 'a) option" where
  "replay C [] st = Some st"
| "replay C (e # es) st = (case replay_step C e st of None \<Rightarrow> None | Some st' \<Rightarrow> replay C es st')"

section \<open>The assembled agent (app/main.py) and a test double\<close>

text \<open>
  \<^verbatim>\<open>RAGAgent.initialize\<close> passes \<^verbatim>\<open>self.processor.process\<close> as the message handler
  (its call also passes a \<^verbatim>\<open>metrics\<close> argument that the consumer's constructor does
  not take; the wiring of the handler is what is modelled). The validation and the
  broker's \<^verbatim>\<open>commit\<close> stay parameters.
\<close>

definition agent ::
  "('h, 'w) env \<Rightarrow> ('v \<Rightarrow> exn + IndexingJobMessage) \<Rightarrow> ('w \<Rightarrow> exn option \<times> 'w) \<Rightarrow>
   ('v, ProcessingResult, ('h, 'w) state) consumer_env" where
  "agent E validate kafka_commit =
     \<lparr>parse = validate,
      message_handler = process E,
      commit = (\<lambda>s. case kafka_commit (world s) of (r, w) \<Rightarrow> (r, s\<lparr>world := w\<rparr>))\<rparr>"

text \<open>
  The gzip stream of \<open>''<p>hi</p>''\<close> (29 bytes, as \<^verbatim>\<open>gzip.compress\<close> writes it with
  \<^verbatim>\<open>mtime=0\<close>) and its base64 text.
\<close>

definition hi_gzip :: string where
  "hi_gzip =
     [CHR 0x1F, CHR 0x8B, CHR 0x08, CHR 0x00, CHR 0x00, CHR 0x00, CHR 0x00, CHR 0x00,
      CHR 0x02, CHR 0x03, CHR 0xB3, CHR 0x29, CHR 0xB0, CHR 0xCB, CHR 0xC8, CHR 0xB4,
      CHR 0xD1, CHR 0x2F, CHR 0xB0, CHR 0x03, CHR 0x00, CHR 0x65, CHR 0xD2, CHR 0x37,
      CHR 0x6D, CHR 0x09, CHR 0x00, CHR 0x00, CHR 0x00]"

definition hi_blob :: string where
  "hi_blob = ''H4sIAAAAAAACA7MpsMvItNEvsAMAZdI3bQkAAAA=''"

text \<open>
  A test double of the collaborators, for running the model on concrete inputs: a
  handle is its workspace name, the world counts the clock's ticks, construction fails
  for the workspaces listed, \<^verbatim>\<open>initialize_storages\<close>, \<^verbatim>\<open>finalize_storages\<close> and
  \<^verbatim>\<open>ainsert\<close> fail when told to. The decoders are the library's on the blobs used
  below: \<^verbatim>\<open>base64.b64decode\<close> (called without \<^verbatim>\<open>validate\<close>) decodes \<open>hi_blob\<close>,
  skips every character of \<open>''!!!!''\<close> and so yields no bytes, and raises on \<open>''abc''\<close>;
  the gzip read of \<open>hi_gzip\<close> is the page and that of no bytes is empty.
\<close>

definition fake_env :: "string list \<Rightarrow> bool \<Rightarrow> bool \<Rightarrow> bool \<Rightarrow> (string, nat) env" where
  "fake_env bad_workspaces init_fails close_fails insert_fails =
     \<lparr>time_time = (\<lambda>w. (real w, Suc w)),
      LightRAG = (\<lambda>ws w. if ws \<in> set bad_workspaces
                          then (Inl (Exn OtherError ''connection refused''), w) else (Inr ws, w)),
      initialize_storages = (\<lambda>h w. if init_fails then (Some (Exn OtherError ''no database''), w)
                                     else (None, w)),
      finalize_storages = (\<lambda>h w. if close_fails then (Some (Exn OtherError ''close failed''), w)
                                   else (None, w)),
      ainsert = (\<lambda>h doc_id txt w. if insert_fails then (Some (Exn OtherError ''insert failed''), w)
                                    else (None, w)),
      b64decode = (\<lambda>b. if b = hi_blob then Inr hi_gzip
                      else if b = ''!!!!'' then Inr []
                      else Inl (Exn ValueError ''Incorrect padding'')),
      gzip_read = (\<lambda>b. if b = hi_gzip then Inr ''<p>hi</p>''
                      else if b = [] then Inr []
                      else Inl (Exn OtherError ''Not a gzipped file'')),
      utf8_decode = (\<lambda>b. Inr b),
      soup_text = (\<lambda>h. Inr h)\<rparr>"

definition fake_state :: "int \<Rightarrow> int \<Rightarrow> (string, nat) state" where
  "fake_state cap ttl =
     \<lparr>instances = [], max_instances = cap, ttl_seconds = ttl, semaphore = 5,
      jobs_processed = 0, jobs_failed = 0, world = 0, logs = []\<rparr>"

text \<open>A full pool of capacity 2 at clock 400: one entry idle for 400, one for 50.\<close>

definition full_state :: "(string, nat) state" where
  "full_state = (fake_state 2 300)\<lparr>
      instances := [(''old'', \<lparr>rag = ''ws_old'', w_collection_id = ''old'', created_at = 0, last_used = 0\<rparr>),
                    (''new'', \<lparr>rag = ''ws_new'', w_collection_id = ''new'', created_at = 350, last_used = 350\<rparr>)],
      world := 400\<rparr>"

text \<open>
  A backend that fails now and then: the constructor fails at even clock values (and
  the failed attempt advances the clock), \<^verbatim>\<open>initialize_storages\<close> fails for workspace
  \<open>ws_b\<close> only, \<^verbatim>\<open>finalize_storages\<close> for \<open>ws_old\<close> only.
\<close>

definition flaky_env :: "(string, nat) env" where
  "flaky_env = (fake_env [] False False False)\<lparr>
      LightRAG := (\<lambda>ws w. if even w then (Inl (Exn OtherError ''connection refused''), Suc w)
                           else (Inr ws, w)),
      initialize_storages := (\<lambda>h w. if h = ''ws_b'' then (Some (Exn OtherError ''no database''), w)
                                      else (None, w)),
      finalize_storages := (\<lambda>h w. if h = ''ws_old'' then (Some (Exn OtherError ''close failed''), w)
                                    else (None, w))\<rparr>"

definition fake_job :: "string \<Rightarrow> string \<Rightarrow> PageContent option \<Rightarrow> IndexingJobMessage" where
  "fake_job cid u c =
     \<lparr>job_id = 1, request_id = 1, project_id = 1, user_id = ''u'', collection_id = cid,
      url = u, depth = 0, parent_url = [], content = c, discovered_at = 0, metadata = []\<rparr>"

text \<open>
  A stand-in for the validation \<^verbatim>\<open>IndexingJobMessage(**value)\<close> on a JSON object given
  as its key/value pairs (strings only): the required \<^verbatim>\<open>collection_id\<close> and \<^verbatim>\<open>url\<close>
  must be there, \<^verbatim>\<open>content\<close> is built when a \<^verbatim>\<open>text\<close> key is given. A broker whose
  \<^verbatim>\<open>commit\<close> succeeds, and a started, running consumer over the empty pool.
\<close>

definition fake_validate :: "(string \<times> string) list \<Rightarrow> exn + IndexingJobMessage" where
  "fake_validate obj =
     (case (map_of obj ''collection_id'', map_of obj ''url'') of
        (Some c, Some u) \<Rightarrow>
          Inr \<lparr>job_id = 1, request_id = 1, project_id = 1, user_id = ''u'', collection_id = c,
               url = u, depth = 0, parent_url = [],
               content = (case map_of obj ''text'' of
                            None \<Rightarrow> None
                          | Some t \<Rightarrow> Some \<lparr>html = [], page_text = t, title = [],
                                             content_type = ''text/html'', encoding = ''gzip+base64'',
                                             html_size = 0\<rparr>),
               discovered_at = 0, metadata = []\<rparr>
      | _ \<Rightarrow> Inl (Exn ValidationError ''Field required''))"

definition fake_commit :: "nat \<Rightarrow> exn option \<times> nat" where
  "fake_commit w = (None, w)"

definition fake_consumer :: "(string, nat) state consumer" where
  "fake_consumer =
     \<lparr>started = True, running = True, tasks = [], app = fake_state 2 300,
      consumer_logs = [], trace = []\<rparr>"

definition fake_record :: "(string \<times> string) list \<Rightarrow> int \<Rightarrow> (string \<times> string) list ConsumerRecord" where
  "fake_record obj n = \<lparr>rec_value = obj, partition = 0, offset = n\<rparr>"

text \<open>
  The agent over the test double, and three payloads: a document with text, an object
  with no field at all, and a document whose text is empty.
\<close>

definition fake_agent ::
  "((string \<times> string) list, ProcessingResult, (string, nat) state) consumer_env" where
  "fake_agent = agent (fake_env [] False False False) fake_validate fake_commit"

definition good_payload :: "(string \<times> string) list" where
  "good_payload = [(''collection_id'', ''t1''), (''url'', ''https://x/doc''), (''text'', ''hello world'')]"

definition malformed_payload :: "(string \<times> string) list" where
  "malformed_payload = []"

definition empty_payload :: "(string \<times> string) list" where
  "empty_payload = [(''collection_id'', ''t1''), (''url'', ''https://x/empty''), (''text'', [])]"

definition fake_content :: "string \<Rightarrow> string \<Rightarrow> string \<Rightarrow> PageContent" where
  "fake_content h t enc =
     \<lparr>html = h, page_text = t, title = [], content_type = ''text/html'', encoding = enc,
      html_size = 0\<rparr>"

section \<open>The pool: frame lemmas and the effect of each operation\<close>

lemma logger_simps [simp]:
  "instances (logger lv msg s) = instances s"
  "max_instances (logger lv msg s) = max_instances s"
  "ttl_seconds (logger lv msg s) = ttl_seconds s"
  "semaphore (logger lv msg s) = semaphore s"
  "jobs_processed (logger lv msg s) = jobs_processed s"
  "jobs_failed (logger lv msg s) = jobs_failed s"
  "world (logger lv msg s) = world s"
  "logs (logger lv msg s) = logs s @ [(lv, msg)]"
  by (simp_all add: logger_def)

lemma try_finalize_simps [simp]:
  "instances (try_finalize E wr ok warn s) = instances s"
  "max_instances (try_finalize E wr ok warn s) = max_instances s"
  "ttl_seconds (try_finalize E wr ok warn s) = ttl_seconds s"
  "semaphore (try_finalize E wr ok warn s) = semaphore s"
  "jobs_processed (try_finalize E wr ok warn s) = jobs_processed s"
  "jobs_failed (try_finalize E wr ok warn s) = jobs_failed s"
  "world (try_finalize E wr ok warn s) = snd (finalize_storages E (rag wr) (world s))"
  by (simp_all add: try_finalize_def split: prod.splits option.splits)

lemma evict_oldest_frame:
  "max_instances (snd (evict_oldest E s)) = max_instances s \<and>
   ttl_seconds (snd (evict_oldest E s)) = ttl_seconds s \<and>
   semaphore (snd (evict_oldest E s)) = semaphore s \<and>
   jobs_processed (snd (evict_oldest E s)) = jobs_processed s \<and>
   jobs_failed (snd (evict_oldest E s)) = jobs_failed s"
proof (induction E s rule: evict_oldest.induct)
  case (1 E s)
  show ?case
  proof (cases "instances s")
    case Nil
    then show ?thesis by (simp add: evict_oldest.simps [of E s])
  next
    case (Cons p rest)
    obtain k wr where p: "p = (k, wr)" by (cases p)
    show ?thesis
    proof (cases "max_instances s \<le> int (length (instances s))")
      case True
      with 1 [OF True Cons [unfolded p] refl] Cons p show ?thesis
        by (simp add: evict_oldest.simps [of E s])
    next
      case False
      then show ?thesis by (simp add: evict_oldest.simps [of E s])
    qed
  qed
qed

lemma evict_oldest_instances:
  "instances (snd (evict_oldest E s)) =
     drop (nat (int (length (instances s)) + 1 - max_instances s)) (instances s)"
proof (induction E s rule: evict_oldest.induct)
  case (1 E s)
  show ?case
  proof (cases "instances s")
    case Nil
    then show ?thesis by (simp add: evict_oldest.simps [of E s])
  next
    case (Cons p rest)
    obtain k wr where p: "p = (k, wr)" by (cases p)
    show ?thesis
    proof (cases "max_instances s \<le> int (length (instances s))")
      case True
      have "nat (int (length (instances s)) + 1 - max_instances s) =
            Suc (nat (int (length rest) + 1 - max_instances s))"
        using True Cons by simp
      with 1 [OF True Cons [unfolded p] refl] Cons p True show ?thesis
        by (simp add: evict_oldest.simps [of E s])
    next
      case False
      then show ?thesis by (simp add: evict_oldest.simps [of E s])
    qed
  qed
qed

lemma evict_oldest_fst:
  "fst (evict_oldest E s) =
     (if 1 \<le> max_instances s then None else Some (Exn KeyError (repr ''dictionary is empty'')))"
proof (induction E s rule: evict_oldest.induct)
  case (1 E s)
  show ?case
  proof (cases "instances s")
    case Nil
    then show ?thesis by (simp add: evict_oldest.simps [of E s])
  next
    case (Cons p rest)
    obtain k wr where p: "p = (k, wr)" by (cases p)
    show ?thesis
    proof (cases "max_instances s \<le> int (length (instances s))")
      case True
      with 1 [OF True Cons [unfolded p] refl] Cons p show ?thesis
        by (simp add: evict_oldest.simps [of E s])
    next
      case False
      then show ?thesis by (simp add: evict_oldest.simps [of E s])
    qed
  qed
qed

lemma create_instance_frame:
  assumes "create_instance E cid s = (r, s')"
  shows "instances s' = instances s" "max_instances s' = max_instances s"
    "ttl_seconds s' = ttl_seconds s" "semaphore s' = semaphore s"
    "jobs_processed s' = jobs_processed s" "jobs_failed s' = jobs_failed s"
  using assms
  by (auto simp: create_instance_def split: prod.splits sum.splits option.splits)

lemma evict_oldest_result:
  assumes "evict_oldest E s = (r, s')"
  shows "instances s' = drop (nat (int (length (instances s)) + 1 - max_instances s)) (instances s)"
    and "r = (if 1 \<le> max_instances s then None else Some (Exn KeyError (repr ''dictionary is empty'')))"
    and "max_instances s' = max_instances s" "ttl_seconds s' = ttl_seconds s"
    and "semaphore s' = semaphore s" "jobs_processed s' = jobs_processed s"
    and "jobs_failed s' = jobs_failed s"
  using assms evict_oldest_instances [of E s] evict_oldest_fst [of E s] evict_oldest_frame [of E s]
  by simp_all

lemma map_of_None_keys: "map_of d k = None \<longleftrightarrow> k \<notin> set (map fst d)"
  by (simp add: map_of_eq_None_iff)

lemma length_delete_present:
  "map_of d k = Some v \<Longrightarrow> length (AList.delete k d) < length d"
  by (induction d) (auto simp: less_Suc_eq_le le_imp_less_Suc AList.delete_eq length_filter_le split: if_splits)

lemma update_absent: "k \<notin> set (map fst d) \<Longrightarrow> AList.update k v d = d @ [(k, v)]"
  by (induction d) auto

lemma get_hit:
  assumes "map_of (instances s) cid = Some wr"
  shows "fst (get E cid s) = Inr (rag wr)"
    and "instances (snd (get E cid s)) =
           AList.delete cid (instances s) @ [(cid, wr\<lparr>last_used := fst (time_time E (world s))\<rparr>)]"
  using assms by (simp_all add: get_def split: prod.splits)

lemma get_cases:
  assumes "get E cid s = (r, s')"
  obtains
    (hit) wr now w1 where "map_of (instances s) cid = Some wr"
      "time_time E (world s) = (now, w1)" "r = Inr (rag wr)"
      "s' = logger DEBUG (''Reusing existing LightRAG instance for collection: '' @ cid)
              (s\<lparr>instances := AList.delete cid (instances s) @ [(cid, wr\<lparr>last_used := now\<rparr>)],
                 world := w1\<rparr>)"
  | (empty) e where "map_of (instances s) cid = None" "evict_oldest E s = (Some e, s')" "r = Inl e"
  | (failed) s1 e where "map_of (instances s) cid = None" "evict_oldest E s = (None, s1)"
      "create_instance E cid
         (logger INFO (''Creating new LightRAG instance for collection: '' @ cid) s1) = (Inl e, s')"
      "r = Inl e"
  | (created) s1 h s2 t1 w1 t2 w2 where "map_of (instances s) cid = None"
      "evict_oldest E s = (None, s1)"
      "create_instance E cid
         (logger INFO (''Creating new LightRAG instance for collection: '' @ cid) s1) = (Inr h, s2)"
      "time_time E (world s2) = (t1, w1)" "time_time E w1 = (t2, w2)" "r = Inr h"
      "s' = s2\<lparr>instances := AList.update cid
                   \<lparr>rag = h, w_collection_id = cid, created_at = t1, last_used = t2\<rparr> (instances s2),
                world := w2\<rparr>"
proof (cases "map_of (instances s) cid")
  case (Some wr)
  obtain now w1 where tt: "time_time E (world s) = (now, w1)" using prod.exhaust by blast
  show ?thesis
    by (rule hit [OF Some tt]) (use assms Some tt in \<open>auto simp: get_def\<close>)
next
  case None
  obtain r1 s1 where ev: "evict_oldest E s = (r1, s1)" using prod.exhaust by blast
  show ?thesis
  proof (cases r1)
    case (Some e)
    have "get E cid s = (Inl e, s1)" using None ev Some by (simp add: get_def)
    with assms have "r = Inl e" "s1 = s'" by simp_all
    with None ev Some show ?thesis by (auto intro: empty)
  next
    case rn: None
    obtain r2 s2 where cr: "create_instance E cid
        (logger INFO (''Creating new LightRAG instance for collection: '' @ cid) s1) = (r2, s2)"
      using prod.exhaust by blast
    show ?thesis
    proof (cases r2)
      case (Inl e)
      have "get E cid s = (Inl e, s2)" using None ev rn cr Inl by (simp add: get_def)
      with assms have "r = Inl e" "s2 = s'" by simp_all
      with None ev rn cr Inl show ?thesis by (auto intro: failed)
    next
      case (Inr h)
      obtain t1 w1 where t1: "time_time E (world s2) = (t1, w1)" using prod.exhaust by blast
      obtain t2 w2 where t2: "time_time E w1 = (t2, w2)" using prod.exhaust by blast
      have "get E cid s = (Inr h, s2\<lparr>instances := AList.update cid
                   \<lparr>rag = h, w_collection_id = cid, created_at = t1, last_used = t2\<rparr> (instances s2),
                world := w2\<rparr>)"
        using None ev rn cr Inr t1 t2 by (simp add: get_def)
      with assms have "r = Inr h" "s' = s2\<lparr>instances := AList.update cid
                   \<lparr>rag = h, w_collection_id = cid, created_at = t1, last_used = t2\<rparr> (instances s2),
                world := w2\<rparr>" by simp_all
      with None ev rn cr Inr t1 t2 show ?thesis by (auto intro: created)
    qed
  qed
qed

lemma get_frame:
  assumes "get E cid s = (r, s')"
  shows "max_instances s' = max_instances s" "ttl_seconds s' = ttl_seconds s"
    "semaphore s' = semaphore s" "jobs_processed s' = jobs_processed s"
    "jobs_failed s' = jobs_failed s"
proof -
  have "max_instances s' = max_instances s \<and> ttl_seconds s' = ttl_seconds s \<and>
    semaphore s' = semaphore s \<and> jobs_processed s' = jobs_processed s \<and>
    jobs_failed s' = jobs_failed s"
    using assms
  proof (cases rule: get_cases)
    case (hit wr now w1)
    then show ?thesis by simp
  next
    case (empty e)
    then show ?thesis using evict_oldest_result [OF empty(2)] by simp
  next
    case (failed s1 e)
    then show ?thesis
      using evict_oldest_result [OF failed(2)] create_instance_frame [OF failed(3)] by simp
  next
    case (created s1 h s2 t1 w1 t2 w2)
    then show ?thesis
      using evict_oldest_result [OF created(2)] create_instance_frame [OF created(3)] by simp
  qed
  then show "max_instances s' = max_instances s" "ttl_seconds s' = ttl_seconds s"
    "semaphore s' = semaphore s" "jobs_processed s' = jobs_processed s"
    "jobs_failed s' = jobs_failed s" by simp_all
qed

lemma get_miss:
  assumes "map_of (instances s) cid = None" and "get E cid s = (r, s')"
  shows "case r of
           Inl e \<Rightarrow> instances s' = drop (nat (int (length (instances s)) + 1 - max_instances s)) (instances s)
         | Inr h \<Rightarrow> 1 \<le> max_instances s \<and> (\<exists>wr. rag wr = h \<and> instances s' =
             drop (nat (int (length (instances s)) + 1 - max_instances s)) (instances s) @ [(cid, wr)])"
  using assms(2)
proof (cases rule: get_cases)
  case (hit wr now w1)
  with assms(1) show ?thesis by simp
next
  case (empty e)
  with evict_oldest_result(1) [OF empty(2)] show ?thesis by simp
next
  case (failed s1 e)
  with evict_oldest_result(1) [OF failed(2)] create_instance_frame(1) [OF failed(3)]
  show ?thesis by simp
next
  case (created s1 h s2 t1 w1 t2 w2)
  note e = evict_oldest_result [OF created(2)]
  have i2: "instances s2 = instances s1"
    using create_instance_frame(1) [OF created(3)] by simp
  have nk: "cid \<notin> set (map fst (instances s1))"
    using assms(1) e(1) by (auto simp: map_of_None_keys dest: in_set_dropD)
  from e(2) have cap: "1 \<le> max_instances s" by (simp split: if_splits)
  show ?thesis
    using created(6,7) i2 e(1) cap nk by (auto simp: update_absent)
qed

lemma pool_inv_get:
  assumes "pool_inv s"
  shows "pool_inv (snd (get E cid s))"
proof -
  obtain r s' where g: "get E cid s = (r, s')" using prod.exhaust by blast
  note fr = get_frame [OF g]
  from assms have len: "int (length (instances s)) \<le> max_instances s"
    and dist: "distinct (map fst (instances s))" by (simp_all add: pool_inv_def)
  have "pool_inv s'"
  proof (cases "map_of (instances s) cid")
    case (Some wr)
    from get_hit(2) [OF Some, of E] g
    have i: "instances s' = AList.delete cid (instances s) @ [(cid, wr\<lparr>last_used := fst (time_time E (world s))\<rparr>)]"
      by simp
    have "length (instances s') \<le> length (instances s)"
      using length_delete_present [OF Some] i by simp
    moreover have "distinct (map fst (instances s'))"
      using dist i by (simp add: AList.delete_keys distinct_removeAll)
    ultimately show ?thesis using len fr(1) by (simp add: pool_inv_def)
  next
    case None
    let ?d = "drop (nat (int (length (instances s)) + 1 - max_instances s)) (instances s)"
    have dd: "distinct (map fst ?d)"
      using dist by (simp add: distinct_drop drop_map [symmetric])
    have nk: "cid \<notin> set (map fst ?d)"
      using None by (auto simp: map_of_None_keys dest: in_set_dropD)
    show ?thesis
    proof (cases r)
      case (Inl e)
      with get_miss [OF None g] have i: "instances s' = ?d" by simp
      have "length (instances s') \<le> length (instances s)" using i by simp
      with len dd i fr(1) show ?thesis by (simp add: pool_inv_def)
    next
      case (Inr h)
      with get_miss [OF None g] obtain wr where cap: "1 \<le> max_instances s"
        and i: "instances s' = ?d @ [(cid, wr)]" by auto
      have "int (length (instances s')) \<le> max_instances s"
        using i cap len by simp
      moreover have "distinct (map fst (instances s'))"
        using i dd nk by simp
      ultimately show ?thesis using fr(1) by (simp add: pool_inv_def)
    qed
  qed
  with g show ?thesis by simp
qed

lemma release_instances:
  "instances (release E cid s) = AList.delete cid (instances s)"
proof (cases "map_of (instances s) cid")
  case None
  then have "cid \<notin> fst ` set (instances s)" by (simp add: map_of_eq_None_iff)
  then have "AList.delete cid (instances s) = instances s"
    by (simp add: AList.delete_idem AList.delete_id)
  with None show ?thesis by (simp add: release_def)
next
  case (Some wr)
  then show ?thesis by (simp add: release_def)
qed

lemma release_frame:
  "max_instances (release E cid s) = max_instances s"
  "ttl_seconds (release E cid s) = ttl_seconds s"
  "semaphore (release E cid s) = semaphore s"
  by (simp_all add: release_def split: option.splits)

lemma pool_inv_release:
  assumes "pool_inv s"
  shows "pool_inv (release E cid s)"
proof -
  have "length (AList.delete cid (instances s)) \<le> length (instances s)"
    by (simp add: AList.delete_eq)
  moreover have "distinct (map fst (AList.delete cid (instances s)))"
    using assms by (simp add: pool_inv_def AList.distinct_delete)
  ultimately show ?thesis
    using assms by (simp add: pool_inv_def release_instances release_frame)
qed

lemma pop_present: "map_of d k = Some v \<Longrightarrow> pop k d = Inr (v, AList.delete k d)"
  by (simp add: pop_def)

lemma cleanup_loop_spec:
  assumes "distinct (map fst (instances s))" "distinct cids" "set cids \<subseteq> set (map fst (instances s))"
  shows "fst (cleanup_loop E cids s) = None \<and>
         instances (snd (cleanup_loop E cids s)) = filter (\<lambda>(k, v). k \<notin> set cids) (instances s) \<and>
         world (snd (cleanup_loop E cids s)) =
           finalize_each E (map (\<lambda>k. rag (the (map_of (instances s) k))) cids) (world s) \<and>
         max_instances (snd (cleanup_loop E cids s)) = max_instances s \<and>
         ttl_seconds (snd (cleanup_loop E cids s)) = ttl_seconds s \<and>
         semaphore (snd (cleanup_loop E cids s)) = semaphore s"
  using assms
proof (induction cids arbitrary: s)
  case Nil
  then show ?case by (simp add: finalize_each_def)
next
  case (Cons cid rest)
  from Cons.prems(3) obtain wr where wr: "map_of (instances s) cid = Some wr"
    by (metis list.set_intros(1) map_of_None_keys not_Some_eq subsetD)
  define s1 where "s1 = try_finalize E wr (Some (INFO, ''Cleaned up expired LightRAG instance: '' @ cid))
               ''Error finalizing expired RAG instance: ''
               (s\<lparr>instances := AList.delete cid (instances s)\<rparr>)"
  have step: "cleanup_loop E (cid # rest) s = cleanup_loop E rest s1"
    using wr by (simp add: pop_present s1_def)
  have i1: "instances s1 = AList.delete cid (instances s)" by (simp add: s1_def)
  have w1: "world s1 = snd (finalize_storages E (rag wr) (world s))" by (simp add: s1_def)
  have f1: "max_instances s1 = max_instances s" "ttl_seconds s1 = ttl_seconds s"
    "semaphore s1 = semaphore s" by (simp_all add: s1_def)
  have d1: "distinct (map fst (instances s1))"
    using Cons.prems(1) by (simp add: i1 AList.distinct_delete)
  have sub: "set rest \<subseteq> set (map fst (instances s1))"
    using Cons.prems(2,3) by (auto simp: i1 AList.delete_keys)
  have dr: "distinct rest" using Cons.prems(2) by simp
  note IH = Cons.IH [OF d1 dr sub]
  have filt: "filter (\<lambda>(k, v). k \<notin> set rest) (AList.delete cid (instances s)) =
              filter (\<lambda>(k, v). k \<notin> set (cid # rest)) (instances s)"
    by (auto simp: AList.delete_eq intro: filter_cong)
  have lk: "map (\<lambda>k. rag (the (map_of (AList.delete cid (instances s)) k))) rest =
            map (\<lambda>k. rag (the (map_of (instances s) k))) rest"
    using Cons.prems(2) by (auto simp: AList.delete_conv')
  show ?case
    unfolding step using IH wr
    by (simp add: i1 w1 f1 filt lk finalize_each_def)
qed

lemma cleanup_expired_spec:
  assumes dist: "distinct (map fst (instances s))"
    and clock: "time_time E (world s) = (now, w1)"
  shows "fst (cleanup_expired E s) =
           Inr (int (length (filter (\<lambda>(cid, wr). is_expired now (ttl_seconds s) wr) (instances s))))"
    and "instances (snd (cleanup_expired E s)) =
           filter (\<lambda>(cid, wr). \<not> is_expired now (ttl_seconds s) wr) (instances s)"
    and "world (snd (cleanup_expired E s)) =
           finalize_each E
             (map (\<lambda>(cid, wr). rag wr) (filter (\<lambda>(cid, wr). is_expired now (ttl_seconds s) wr) (instances s)))
             w1"
    and "max_instances (snd (cleanup_expired E s)) = max_instances s"
    and "ttl_seconds (snd (cleanup_expired E s)) = ttl_seconds s"
    and "semaphore (snd (cleanup_expired E s)) = semaphore s"
proof -
  define P where "P = (\<lambda>(cid :: string, wr :: 'a LightRAGWrapper). is_expired now (ttl_seconds s) wr)"
  define expired where "expired = map fst (filter P (instances s))"
  define s0 where "s0 = s\<lparr>world := w1\<rparr>"
  have d0: "distinct (map fst (instances s0))" using dist by (simp add: s0_def)
  have de: "distinct expired" using dist by (simp add: expired_def distinct_map_filter)
  have sub: "set expired \<subseteq> set (map fst (instances s0))" by (auto simp: expired_def s0_def)
  note L = cleanup_loop_spec [OF d0 de sub, of E]
  have mem: "\<And>k v. (k, v) \<in> set (instances s) \<Longrightarrow> k \<in> set expired \<longleftrightarrow> P (k, v)"
  proof -
    fix k v assume kv: "(k, v) \<in> set (instances s)"
    show "k \<in> set expired \<longleftrightarrow> P (k, v)"
    proof
      assume "k \<in> set expired"
      then obtain v' where "(k, v') \<in> set (instances s)" "P (k, v')"
        by (auto simp: expired_def)
      with kv dist show "P (k, v)" by (metis eq_key_imp_eq_value)
    next
      assume "P (k, v)" with kv show "k \<in> set expired"
        by (force simp: expired_def)
    qed
  qed
  have filt: "filter (\<lambda>(k, v). k \<notin> set expired) (instances s) = filter (\<lambda>p. \<not> P p) (instances s)"
    by (rule filter_cong) (auto simp: mem)
  have lk: "map (\<lambda>k. rag (the (map_of (instances s) k))) expired =
            map (\<lambda>(cid, wr). rag wr) (filter P (instances s))"
    using dist by (auto simp: expired_def)
  have cu: "cleanup_expired E s =
      (case cleanup_loop E expired s0 of
         (Some e, s') \<Rightarrow> (Inl e, s')
       | (None, s') \<Rightarrow> (Inr (int (length expired)), s'))"
    unfolding expired_def P_def s0_def using clock by (simp add: cleanup_expired_def Let_def)
  obtain r s' where cl: "cleanup_loop E expired s0 = (r, s')" using prod.exhaust by blast
  with L have r: "r = None" and i: "instances s' = filter (\<lambda>(k, v). k \<notin> set expired) (instances s0)"
    and w: "world s' = finalize_each E (map (\<lambda>k. rag (the (map_of (instances s0) k))) expired) (world s0)"
    and f: "max_instances s' = max_instances s0" "ttl_seconds s' = ttl_seconds s0"
      "semaphore s' = semaphore s0"
    by simp_all
  have res: "cleanup_expired E s = (Inr (int (length expired)), s')"
    using cu cl r by simp
  have neg: "(\<lambda>p. \<not> P p) = (\<lambda>(cid, wr). \<not> is_expired now (ttl_seconds s) wr)"
    by (auto simp: P_def)
  show "fst (cleanup_expired E s) =
           Inr (int (length (filter (\<lambda>(cid, wr). is_expired now (ttl_seconds s) wr) (instances s))))"
    using res by (simp add: expired_def P_def)
  show "instances (snd (cleanup_expired E s)) =
           filter (\<lambda>(cid, wr). \<not> is_expired now (ttl_seconds s) wr) (instances s)"
    using res i filt neg by (simp add: s0_def)
  show "world (snd (cleanup_expired E s)) =
           finalize_each E
             (map (\<lambda>(cid, wr). rag wr) (filter (\<lambda>(cid, wr). is_expired now (ttl_seconds s) wr) (instances s)))
             w1"
    using res w lk by (simp add: s0_def P_def)
  show "max_instances (snd (cleanup_expired E s)) = max_instances s"
    "ttl_seconds (snd (cleanup_expired E s)) = ttl_seconds s"
    "semaphore (snd (cleanup_expired E s)) = semaphore s"
    using res f by (simp_all add: s0_def)
qed

lemma pool_inv_cleanup_expired:
  assumes "pool_inv s"
  shows "pool_inv (snd (cleanup_expired E s))"
proof -
  obtain now w1 where clock: "time_time E (world s) = (now, w1)" using prod.exhaust by blast
  from assms have dist: "distinct (map fst (instances s))" by (simp add: pool_inv_def)
  note S = cleanup_expired_spec [OF dist clock]
  have "length (instances (snd (cleanup_expired E s))) \<le> length (instances s)"
    by (simp add: S(2))
  moreover have "distinct (map fst (instances (snd (cleanup_expired E s))))"
    using dist by (simp add: S(2) distinct_map_filter)
  ultimately show ?thesis using assms S(4) by (simp add: pool_inv_def)
qed

lemma fold_try_finalize_frame:
  "max_instances (fold (\<lambda>(cid, wr). try_finalize E wr (ok cid) (warn cid)) xs s) = max_instances s \<and>
   instances (fold (\<lambda>(cid, wr). try_finalize E wr (ok cid) (warn cid)) xs s) = instances s"
  by (induction xs arbitrary: s) (auto)

lemma close_all_instances: "instances (close_all E s) = []"
  by (simp add: close_all_def Let_def)

lemma close_all_max: "max_instances (close_all E s) = max_instances s"
  using fold_try_finalize_frame [of E "\<lambda>cid. Some (DEBUG, ''Closed LightRAG instance: '' @ cid)"
      "\<lambda>cid. ''Error closing RAG instance '' @ cid @ '': ''"]
  by (simp add: close_all_def Let_def)

lemma pool_inv_close_all:
  assumes "pool_inv s"
  shows "pool_inv (close_all E s)"
  using assms by (simp add: pool_inv_def close_all_instances close_all_max)

lemma pool_inv_apply_op: "pool_inv s \<Longrightarrow> pool_inv (apply_op E op s)"
  by (cases op) (simp_all add: pool_inv_get pool_inv_release pool_inv_cleanup_expired pool_inv_close_all)

lemma pool_inv_fold: "pool_inv s \<Longrightarrow> pool_inv (fold (apply_op E) ops s)"
  by (induction ops arbitrary: s) (simp_all add: pool_inv_apply_op)

lemma cleanup_loop_max:
  "cleanup_loop E cids s = (r, s') \<Longrightarrow> max_instances s' = max_instances s"
proof (induction cids arbitrary: s)
  case Nil
  then show ?case by simp
next
  case (Cons cid rest)
  show ?case
  proof (cases "pop cid (instances s)")
    case (Inl e)
    with Cons.prems show ?thesis by simp
  next
    case (Inr p)
    obtain wr d where p: "p = (wr, d)" by (cases p)
    define s1 where "s1 = try_finalize E wr (Some (INFO, ''Cleaned up expired LightRAG instance: '' @ cid))
               ''Error finalizing expired RAG instance: '' (s\<lparr>instances := d\<rparr>)"
    have "cleanup_loop E rest s1 = (r, s')"
      using Cons.prems Inr p by (simp add: s1_def)
    from Cons.IH [OF this] show ?thesis by (simp add: s1_def)
  qed
qed

lemma max_instances_apply_op: "max_instances (apply_op E op s) = max_instances s"
proof (cases op)
  case (Get cid)
  obtain r s' where g: "get E cid s = (r, s')" using prod.exhaust by blast
  with Get get_frame(1) [OF g] show ?thesis by simp
next
  case (Release cid)
  then show ?thesis by (simp add: release_frame)
next
  case EvictExpired
  then show ?thesis
    by (auto simp: cleanup_expired_def Let_def split: prod.splits option.splits dest!: cleanup_loop_max)
next
  case CloseAll
  then show ?thesis by (simp add: close_all_max)
qed

lemma max_instances_fold: "max_instances (fold (apply_op E) ops s) = max_instances s"
  by (induction ops arbitrary: s) (simp_all add: max_instances_apply_op)

lemma init_state_inv:
  assumes "init_state settings w = Inr s0" and "0 \<le> max_rag_instances settings"
  shows "pool_inv s0" and "max_instances s0 = max_rag_instances settings"
  using assms by (auto simp: init_state_def pool_inv_def split: if_splits)

text \<open>
  Claim C3. Starting from the empty pool that \<^verbatim>\<open>__init__\<close> builds, with a capacity that
  is not negative, after every operation of any sequence of \<^verbatim>\<open>get\<close>, \<^verbatim>\<open>release\<close>,
  \<^verbatim>\<open>cleanup_expired\<close> and \<^verbatim>\<open>close_all\<close> calls (whether the call returned or raised)
  the pool holds at most \<^verbatim>\<open>max_instances\<close> entries and no collection id twice.
\<close>

theorem pool_bounded_and_unique:
  assumes "instances s0 = []"
    and "0 \<le> max_instances s0"
    and "n \<le> length ops"
  shows "int (length (instances (fold (apply_op E) (take n ops) s0))) \<le> max_instances s0 \<and>
         distinct (map fst (instances (fold (apply_op E) (take n ops) s0)))"
proof -
  have "pool_inv s0" using assms(1,2) by (simp add: pool_inv_def)
  then have "pool_inv (fold (apply_op E) (take n ops) s0)" by (rule pool_inv_fold)
  moreover have "max_instances (fold (apply_op E) (take n ops) s0) = max_instances s0"
    by (simp add: max_instances_fold)
  ultimately show ?thesis by (simp add: pool_inv_def)
qed

text \<open>The definitions a concrete run unfolds.\<close>

lemmas eval_defs = fake_env_def fake_state_def init_state_def get_def evict_oldest.simps
  create_instance_def try_finalize_def logger_def workspace_name_def release_def
  cleanup_expired_def pop_def is_expired_def close_all_def Let_def repr_def

theorem pool_bounded_and_unique_witness:
  "instances (fake_state 2 300) = [] \<and> 0 \<le> max_instances (fake_state 2 300) \<and>
   (4::nat) \<le> length [Get ''a'', Get ''b'', Get ''a'', Get ''c'', EvictExpired, CloseAll] \<and>
   int (length (instances (fold (apply_op (fake_env [] False True False))
          (take 4 [Get ''a'', Get ''b'', Get ''a'', Get ''c'', EvictExpired, CloseAll])
          (fake_state 2 300)))) \<le> 2 \<and>
   map fst (instances (fold (apply_op (fake_env [] False True False))
          (take 4 [Get ''a'', Get ''b'', Get ''a'', Get ''c'', EvictExpired, CloseAll])
          (fake_state 2 300))) = [''a'', ''c'']"
proof -
  have h: "instances (fake_state 2 300) = []" "0 \<le> max_instances (fake_state 2 300)"
    and m: "max_instances (fake_state 2 300) = 2"
    by (simp_all add: fake_state_def)
  have "map fst (instances (fold (apply_op (fake_env [] False True False))
          (take 4 [Get ''a'', Get ''b'', Get ''a'', Get ''c'', EvictExpired, CloseAll])
          (fake_state 2 300))) = [''a'', ''c'']"
    by (simp add: eval_defs)
  with pool_bounded_and_unique [OF h, of 4 "[Get ''a'', Get ''b'', Get ''a'', Get ''c'', EvictExpired, CloseAll]"
      "fake_env [] False True False"] h m
  show ?thesis by simp
qed

text \<open>
  Claim C5. \<^verbatim>\<open>cleanup_expired\<close> reads the clock once; it returns the number of entries
  whose idle time \<open>now - last_used\<close> exceeds \<^verbatim>\<open>ttl_seconds\<close>, which is the number of
  entries it removed; the pool keeps exactly the other entries, in their order; and
  \<^verbatim>\<open>finalize_storages\<close> has been called on exactly the removed entries' instances.
\<close>

theorem cleanup_expired_exact:
  assumes "distinct (map fst (instances s))" and "time_time E (world s) = (now, w1)"
  shows "fst (cleanup_expired E s) =
           Inr (int (length (filter (\<lambda>(cid, wr). now - last_used wr > real_of_int (ttl_seconds s)) (instances s)))) \<and>
         fst (cleanup_expired E s) =
           Inr (int (length (instances s)) - int (length (instances (snd (cleanup_expired E s))))) \<and>
         instances (snd (cleanup_expired E s)) =
           filter (\<lambda>(cid, wr). \<not> now - last_used wr > real_of_int (ttl_seconds s)) (instances s) \<and>
         world (snd (cleanup_expired E s)) =
           finalize_each E
             (map (\<lambda>(cid, wr). rag wr)
                (filter (\<lambda>(cid, wr). now - last_used wr > real_of_int (ttl_seconds s)) (instances s)))
             w1"
proof -
  note S = cleanup_expired_spec [OF assms, unfolded is_expired_def]
  have neg: "(\<lambda>p. \<not> (case p of (cid, wr) \<Rightarrow> now - last_used wr > real_of_int (ttl_seconds s))) =
             (\<lambda>(cid :: string, wr :: 'a LightRAGWrapper). \<not> now - last_used wr > real_of_int (ttl_seconds s))"
    by auto
  have "length (instances s) =
          length (filter (\<lambda>(cid, wr). now - last_used wr > real_of_int (ttl_seconds s)) (instances s)) +
          length (filter (\<lambda>(cid, wr). \<not> now - last_used wr > real_of_int (ttl_seconds s)) (instances s))"
    using sum_length_filter_compl [of "\<lambda>(cid, wr). now - last_used wr > real_of_int (ttl_seconds s)" "instances s"]
    unfolding neg by simp
  then have "int (length (filter (\<lambda>(cid, wr). now - last_used wr > real_of_int (ttl_seconds s)) (instances s))) =
        int (length (instances s)) - int (length (instances (snd (cleanup_expired E s))))"
    by (simp add: S(2))
  with S(1,2,3) show ?thesis by simp
qed

theorem cleanup_expired_exact_witness:
  "fst (cleanup_expired (fake_env [] False True False) full_state) = Inr 1 \<and>
   map fst (instances (snd (cleanup_expired (fake_env [] False True False) full_state))) = [''new''] \<and>
   world (snd (cleanup_expired (fake_env [] False True False) full_state)) = 401"
proof -
  have d: "distinct (map fst (instances full_state))" by (simp add: full_state_def fake_state_def)
  have c: "time_time (fake_env [] False True False) (world full_state) = (400, 401)"
    by (simp add: full_state_def fake_state_def fake_env_def)
  show ?thesis
    using cleanup_expired_exact [OF d c]
    by (simp add: full_state_def fake_state_def fake_env_def finalize_each_def)
qed

section \<open>The pool: least recently used first\<close>

lemma try_finalize_logs: "set (logs s) \<subseteq> set (logs (try_finalize E wr ok warn s))"
  by (auto simp: try_finalize_def split: prod.splits option.splits)

lemma evict_oldest_logs: "set (logs s) \<subseteq> set (logs (snd (evict_oldest E s)))"
proof (induction E s rule: evict_oldest.induct)
  case (1 E s)
  show ?case
  proof (cases "instances s")
    case Nil
    then show ?thesis by (simp add: evict_oldest.simps [of E s])
  next
    case (Cons p rest)
    obtain k wr where p: "p = (k, wr)" by (cases p)
    show ?thesis
    proof (cases "max_instances s \<le> int (length (instances s))")
      case True
      define s1 where "s1 = try_finalize E wr None ''Error finalizing evicted RAG instance: ''
                 (logger INFO (''Evicting LightRAG instance for collection: '' @ k)
                   (s\<lparr>instances := rest\<rparr>))"
      have "set (logs s) \<subseteq> set (logs s1)"
        unfolding s1_def using try_finalize_logs by fastforce
      moreover have "evict_oldest E s = evict_oldest E s1"
        using True Cons p by (simp add: evict_oldest.simps [of E s] s1_def)
      moreover have "set (logs s1) \<subseteq> set (logs (snd (evict_oldest E s1)))"
        using 1 [OF True Cons [unfolded p] refl] by (simp add: s1_def)
      ultimately show ?thesis by auto
    next
      case False
      then show ?thesis by (simp add: evict_oldest.simps [of E s])
    qed
  qed
qed

lemma evict_oldest_logs_evicting:
  assumes "instances s = (k, wr) # rest" and "max_instances s \<le> int (length (instances s))"
  shows "(INFO, ''Evicting LightRAG instance for collection: '' @ k) \<in> set (logs (snd (evict_oldest E s)))"
proof -
  define s1 where "s1 = try_finalize E wr None ''Error finalizing evicted RAG instance: ''
                 (logger INFO (''Evicting LightRAG instance for collection: '' @ k)
                   (s\<lparr>instances := rest\<rparr>))"
  have "(INFO, ''Evicting LightRAG instance for collection: '' @ k) \<in> set (logs s1)"
    unfolding s1_def using try_finalize_logs by fastforce
  moreover have "evict_oldest E s = evict_oldest E s1"
    using assms by (simp add: evict_oldest.simps [of E s] s1_def)
  ultimately show ?thesis using evict_oldest_logs [of s1 E] by auto
qed

lemma create_instance_logs:
  "create_instance E cid s = (r, s') \<Longrightarrow> set (logs s) \<subseteq> set (logs s')"
  by (auto simp: create_instance_def split: prod.splits sum.splits option.splits)

lemma get_logs_evicting:
  assumes "map_of (instances s) cid = None" and "instances s = (k, wr) # rest"
    and "max_instances s \<le> int (length (instances s))" and "get E cid s = (r, s')"
  shows "(INFO, ''Evicting LightRAG instance for collection: '' @ k) \<in> set (logs s')"
  using assms(4)
proof (cases rule: get_cases)
  case (hit wr now w1)
  with assms(1) show ?thesis by simp
next
  case (empty e)
  with evict_oldest_logs_evicting [OF assms(2,3), of E] show ?thesis by simp
next
  case (failed s1 e)
  from evict_oldest_logs_evicting [OF assms(2,3), of E] failed(2)
  have "(INFO, ''Evicting LightRAG instance for collection: '' @ k) \<in> set (logs s1)" by simp
  then have "(INFO, ''Evicting LightRAG instance for collection: '' @ k) \<in>
      set (logs (logger INFO (''Creating new LightRAG instance for collection: '' @ cid) s1))"
    by simp
  with create_instance_logs [OF failed(3)] show ?thesis by blast
next
  case (created s1 h s2 t1 w1 t2 w2)
  from evict_oldest_logs_evicting [OF assms(2,3), of E] created(2)
  have "(INFO, ''Evicting LightRAG instance for collection: '' @ k) \<in> set (logs s1)" by simp
  then have "(INFO, ''Evicting LightRAG instance for collection: '' @ k) \<in>
      set (logs (logger INFO (''Creating new LightRAG instance for collection: '' @ cid) s1))"
    by simp
  with create_instance_logs [OF created(3)] created(7) show ?thesis by auto
qed

lemma get_hit_keys:
  assumes "map_of (instances s) cid = Some wr"
  shows "map fst (instances (snd (get E cid s))) = removeAll cid (map fst (instances s)) @ [cid]"
  using get_hit(2) [OF assms, of E] by (simp add: AList.delete_keys)

lemma get_miss_at_capacity:
  assumes "map_of (instances s) cid = None" and "instances s = (k, wr0) # rest"
    and "int (length (instances s)) = max_instances s" and "fst (get E cid s) = Inr h"
  shows "map fst (instances (snd (get E cid s))) = map fst rest @ [cid]"
proof -
  obtain r s' where g: "get E cid s = (r, s')" using prod.exhaust by blast
  with assms(4) have r: "r = Inr h" by simp
  have n: "nat (int (length (instances s)) + 1 - max_instances s) = 1"
    using assms(3) by simp
  from get_miss [OF assms(1) g, unfolded n] r obtain wr where "instances s' = drop 1 (instances s) @ [(cid, wr)]"
    by auto
  with assms(2) g show ?thesis by simp
qed

text \<open>
  Claim C4. A hit returns the pooled instance and moves its key to the end of the pool;
  a miss on a full pool that ends in a new instance drops the first (least recently used)
  key, logging its eviction, and appends the new key. With capacity 2 and an empty pool,
  successful calls \<^verbatim>\<open>get(A)\<close>, \<^verbatim>\<open>get(B)\<close>, \<^verbatim>\<open>get(A)\<close>, \<^verbatim>\<open>get(C)\<close> leave exactly
  A and C, A with the instance it had, and B was evicted.
\<close>

theorem lru_eviction:
  "(map_of (instances s) cid = Some wr \<longrightarrow>
      fst (get E cid s) = Inr (rag wr) \<and>
      map fst (instances (snd (get E cid s))) = removeAll cid (map fst (instances s)) @ [cid]) \<and>
   (map_of (instances s) cid = None \<and> instances s = (k, wr0) # rest \<and>
    int (length (instances s)) = max_instances s \<and> fst (get E cid s) = Inr h \<longrightarrow>
      map fst (instances (snd (get E cid s))) = map fst rest @ [cid] \<and>
      (INFO, ''Evicting LightRAG instance for collection: '' @ k) \<in> set (logs (snd (get E cid s)))) \<and>
   (distinct [A, B, C] \<and> instances s0 = [] \<and> max_instances s0 = 2 \<and>
    get E A s0 = (Inr ha, s1) \<and> get E B s1 = (Inr hb, s2) \<and>
    get E A s2 = (Inr ha', s3) \<and> get E C s3 = (Inr hc, s4) \<longrightarrow>
      map fst (instances s4) = [A, C] \<and> map (\<lambda>(c, w). rag w) (instances s4) = [ha, hc] \<and> ha' = ha \<and>
      (INFO, ''Evicting LightRAG instance for collection: '' @ B) \<in> set (logs s4))"
proof (intro conjI impI)
  assume "map_of (instances s) cid = Some wr"
  then show "fst (get E cid s) = Inr (rag wr)"
    and "map fst (instances (snd (get E cid s))) = removeAll cid (map fst (instances s)) @ [cid]"
    by (simp_all add: get_hit(1) get_hit_keys)
next
  assume a: "map_of (instances s) cid = None \<and> instances s = (k, wr0) # rest \<and>
    int (length (instances s)) = max_instances s \<and> fst (get E cid s) = Inr h"
  note a1 = a [THEN conjunct1] and a2 = a [THEN conjunct2, THEN conjunct1]
    and a3 = a [THEN conjunct2, THEN conjunct2, THEN conjunct1]
    and a4 = a [THEN conjunct2, THEN conjunct2, THEN conjunct2]
  show "map fst (instances (snd (get E cid s))) = map fst rest @ [cid]"
    by (rule get_miss_at_capacity [OF a1 a2 a3 a4])
  obtain r s' where g: "get E cid s = (r, s')" using prod.exhaust by blast
  from a3 have "max_instances s \<le> int (length (instances s))" by simp
  from get_logs_evicting [OF a1 a2 this g] g
  show "(INFO, ''Evicting LightRAG instance for collection: '' @ k) \<in> set (logs (snd (get E cid s)))"
    by simp
next
  assume a: "distinct [A, B, C] \<and> instances s0 = [] \<and> max_instances s0 = 2 \<and>
    get E A s0 = (Inr ha, s1) \<and> get E B s1 = (Inr hb, s2) \<and>
    get E A s2 = (Inr ha', s3) \<and> get E C s3 = (Inr hc, s4)"
  then have ne: "A \<noteq> B" "A \<noteq> C" "B \<noteq> C" and i0: "instances s0 = []" and m0: "max_instances s0 = 2"
    and g1: "get E A s0 = (Inr ha, s1)" and g2: "get E B s1 = (Inr hb, s2)"
    and g3: "get E A s2 = (Inr ha', s3)" and g4: "get E C s3 = (Inr hc, s4)"
    by auto
  have m1: "max_instances s1 = 2" using get_frame(1) [OF g1] m0 by simp
  have m2: "max_instances s2 = 2" using get_frame(1) [OF g2] m1 by simp
  have m3: "max_instances s3 = 2" using get_frame(1) [OF g3] m2 by simp
  from get_miss [OF _ g1] i0 m0 obtain wa where wa: "rag wa = ha" "instances s1 = [(A, wa)]"
    by auto
  from get_miss [OF _ g2] wa ne m1 obtain wb where wb: "rag wb = hb" "instances s2 = [(A, wa), (B, wb)]"
    by auto
  have hit: "map_of (instances s2) A = Some wa" using wb by simp
  from get_hit [OF hit, of E] g3 wb ne
  have h3: "ha' = rag wa"
    and i3: "instances s3 = [(B, wb), (A, wa\<lparr>last_used := fst (time_time E (world s2))\<rparr>)]"
    by simp_all
  have miss4: "map_of (instances s3) C = None" using i3 ne by simp
  from get_miss [OF miss4 g4] i3 m3 obtain wc where wc: "rag wc = hc"
    "instances s4 = [(A, wa\<lparr>last_used := fst (time_time E (world s2))\<rparr>), (C, wc)]"
    by auto
  show "map fst (instances s4) = [A, C]" using wc by simp
  show "map (\<lambda>(c, w). rag w) (instances s4) = [ha, hc]" using wc wa by simp
  show "ha' = ha" using h3 wa by simp
  show "(INFO, ''Evicting LightRAG instance for collection: '' @ B) \<in> set (logs s4)"
    by (rule get_logs_evicting [OF miss4 i3 _ g4]) (simp add: i3 m3)
qed

theorem lru_eviction_witness:
  "map fst (instances (fold (apply_op (fake_env [] False False False))
      [Get ''A'', Get ''B'', Get ''A'', Get ''C''] (fake_state 2 300))) = [''A'', ''C''] \<and>
   (INFO, ''Evicting LightRAG instance for collection: B'') \<in>
     set (logs (fold (apply_op (fake_env [] False False False))
       [Get ''A'', Get ''B'', Get ''A'', Get ''C''] (fake_state 2 300)))"
proof -
  define E where "E = fake_env [] False False False"
  define s0 where "s0 = fake_state 2 300"
  define s1 where "s1 = snd (get E ''A'' s0)"
  define s2 where "s2 = snd (get E ''B'' s1)"
  define s3 where "s3 = snd (get E ''A'' s2)"
  define s4 where "s4 = snd (get E ''C'' s3)"
  have g1: "get E ''A'' s0 = (Inr ''ws_A'', s1)"
    unfolding s1_def by (simp add: E_def s0_def eval_defs)
  have g2: "get E ''B'' s1 = (Inr ''ws_B'', s2)"
    unfolding s2_def s1_def by (simp add: E_def s0_def eval_defs)
  have g3: "get E ''A'' s2 = (Inr ''ws_A'', s3)"
    unfolding s3_def s2_def s1_def by (simp add: E_def s0_def eval_defs)
  have g4: "get E ''C'' s3 = (Inr ''ws_C'', s4)"
    unfolding s4_def s3_def s2_def s1_def by (simp add: E_def s0_def eval_defs)
  have pre: "distinct [''A'', ''B'', ''C''] \<and> instances s0 = [] \<and> max_instances s0 = 2 \<and>
    get E ''A'' s0 = (Inr ''ws_A'', s1) \<and> get E ''B'' s1 = (Inr ''ws_B'', s2) \<and>
    get E ''A'' s2 = (Inr ''ws_A'', s3) \<and> get E ''C'' s3 = (Inr ''ws_C'', s4)"
    using g1 g2 g3 g4 by (simp add: s0_def fake_state_def)
  from lru_eviction [where A = "''A''" and B = "''B''" and C = "''C''" and ?s0.0 = s0 and ?s1.0 = s1
      and ?s2.0 = s2 and ?s3.0 = s3 and ?s4.0 = s4 and E = E and ha = "''ws_A''" and hb = "''ws_B''"
      and ha' = "''ws_A''" and hc = "''ws_C''", THEN conjunct2, THEN conjunct2, THEN mp, OF pre]
  show ?thesis
    by (simp add: s4_def s3_def s2_def s1_def s0_def E_def)
qed

section \<open>The pool: failures of the backend\<close>

lemma try_finalize_fails:
  assumes "fst (finalize_storages E (rag wr) (world s)) = Some e"
  shows "try_finalize E wr ok warn s =
           logger WARNING (warn @ exn_str e) (s\<lparr>world := snd (finalize_storages E (rag wr) (world s))\<rparr>)"
  using assms by (cases "finalize_storages E (rag wr) (world s)") (simp add: try_finalize_def)

lemma evict_oldest_logs_warning:
  assumes "instances s = (k, wr) # rest" and "max_instances s \<le> int (length (instances s))"
    and "fst (finalize_storages E (rag wr) (world s)) = Some e"
  shows "(WARNING, ''Error finalizing evicted RAG instance: '' @ exn_str e) \<in>
           set (logs (snd (evict_oldest E s)))"
proof -
  define s0 where "s0 = logger INFO (''Evicting LightRAG instance for collection: '' @ k)
                   (s\<lparr>instances := rest\<rparr>)"
  define s1 where "s1 = try_finalize E wr None ''Error finalizing evicted RAG instance: '' s0"
  have "fst (finalize_storages E (rag wr) (world s0)) = Some e"
    using assms(3) by (simp add: s0_def)
  from try_finalize_fails [OF this]
  have "(WARNING, ''Error finalizing evicted RAG instance: '' @ exn_str e) \<in> set (logs s1)"
    by (simp add: s1_def del: append.simps)
  moreover have "evict_oldest E s = evict_oldest E s1"
    using assms by (simp add: evict_oldest.simps [of E s] s1_def s0_def)
  ultimately show ?thesis using evict_oldest_logs [of s1 E] by auto
qed

lemma cleanup_loop_logs: "set (logs s) \<subseteq> set (logs (snd (cleanup_loop E cids s)))"
proof (induction cids arbitrary: s)
  case Nil
  then show ?case by simp
next
  case (Cons cid rest)
  show ?case
  proof (cases "pop cid (instances s)")
    case (Inl e)
    then show ?thesis by simp
  next
    case (Inr p)
    obtain wr d where p: "p = (wr, d)" by (cases p)
    define s1 where "s1 = try_finalize E wr (Some (INFO, ''Cleaned up expired LightRAG instance: '' @ cid))
               ''Error finalizing expired RAG instance: '' (s\<lparr>instances := d\<rparr>)"
    have "set (logs s) \<subseteq> set (logs s1)"
      unfolding s1_def using try_finalize_logs by fastforce
    moreover have "cleanup_loop E (cid # rest) s = cleanup_loop E rest s1"
      using Inr p by (simp add: s1_def)
    ultimately show ?thesis using Cons.IH [of s1] by auto
  qed
qed

lemma cleanup_loop_logs_warning:
  assumes "map_of (instances s) cid = Some wr"
    and "fst (finalize_storages E (rag wr) (world s)) = Some e"
  shows "(WARNING, ''Error finalizing expired RAG instance: '' @ exn_str e) \<in>
           set (logs (snd (cleanup_loop E (cid # rest) s)))"
proof -
  define s0 where "s0 = s\<lparr>instances := AList.delete cid (instances s)\<rparr>"
  define s1 where "s1 = try_finalize E wr (Some (INFO, ''Cleaned up expired LightRAG instance: '' @ cid))
               ''Error finalizing expired RAG instance: '' s0"
  have "fst (finalize_storages E (rag wr) (world s0)) = Some e"
    using assms(2) by (simp add: s0_def)
  from try_finalize_fails [OF this]
  have "(WARNING, ''Error finalizing expired RAG instance: '' @ exn_str e) \<in> set (logs s1)"
    by (simp add: s1_def del: append.simps)
  moreover have "cleanup_loop E (cid # rest) s = cleanup_loop E rest s1"
    using assms(1) by (simp add: pop_present s1_def s0_def)
  ultimately show ?thesis using cleanup_loop_logs [of s1 E rest] by auto
qed

lemma fold_close_logs:
  "set (logs s) \<subseteq> set (logs (fold (\<lambda>(cid, wr). try_finalize E wr (ok cid) (warn cid)) xs s))"
proof (induction xs arbitrary: s)
  case Nil
  then show ?case by simp
next
  case (Cons p xs)
  obtain k wr where p: "p = (k, wr)" by (cases p)
  have "set (logs s) \<subseteq> set (logs (try_finalize E wr (ok k) (warn k) s))"
    by (rule try_finalize_logs)
  with Cons.IH [of "try_finalize E wr (ok k) (warn k) s"] p show ?case by auto
qed

lemma create_instance_fails:
  "fst (LightRAG E (workspace_name cid) (world s)) = Inl e \<Longrightarrow> fst (create_instance E cid s) = Inl e"
  "fst (LightRAG E (workspace_name cid) (world s)) = Inr h \<Longrightarrow>
   fst (initialize_storages E h (snd (LightRAG E (workspace_name cid) (world s)))) = Some e \<Longrightarrow>
   fst (create_instance E cid s) = Inl e"
  by (auto simp: create_instance_def split: prod.splits sum.splits option.splits)

lemma get_raise_not_added:
  assumes "map_of (instances s) cid = None" and "get E cid s = (Inl e, s')"
  shows "cid \<notin> set (map fst (instances s'))"
proof -
  from get_miss [OF assms] have "set (instances s') \<subseteq> set (instances s)"
    by (auto dest: in_set_dropD)
  with assms(1) show ?thesis by (auto simp: map_of_None_keys)
qed

lemma finalize_each_Cons:
  "finalize_each E (h # hs) w = finalize_each E hs (snd (finalize_storages E h w))"
  by (simp add: finalize_each_def)

lemma evict_oldest_step:
  assumes "instances s = (k, wr) # rest" and "max_instances s \<le> int (length (instances s))"
  shows "\<exists>s1. evict_oldest E s = evict_oldest E s1 \<and> instances s1 = rest \<and>
           max_instances s1 = max_instances s \<and>
           world s1 = snd (finalize_storages E (rag wr) (world s))"
proof -
  define s1 where "s1 = try_finalize E wr None ''Error finalizing evicted RAG instance: ''
                 (logger INFO (''Evicting LightRAG instance for collection: '' @ k)
                   (s\<lparr>instances := rest\<rparr>))"
  have "evict_oldest E s = evict_oldest E s1"
    using assms by (simp add: evict_oldest.simps [of E s] s1_def)
  moreover have "instances s1 = rest" "max_instances s1 = max_instances s"
    "world s1 = snd (finalize_storages E (rag wr) (world s))"
    by (simp_all add: s1_def)
  ultimately show ?thesis by blast
qed

lemma evict_oldest_logs_warning_at:
  assumes "i < length (instances s)"
    and "int i \<le> int (length (instances s)) - max_instances s"
    and "fst (finalize_storages E (rag (snd (instances s ! i)))
                (finalize_each E (map (\<lambda>(c, w). rag w) (take i (instances s))) (world s))) = Some e"
  shows "(WARNING, ''Error finalizing evicted RAG instance: '' @ exn_str e) \<in>
           set (logs (snd (evict_oldest E s)))"
  using assms
proof (induction i arbitrary: s)
  case 0
  then obtain k wr rest where i: "instances s = (k, wr) # rest"
    by (cases "instances s") auto
  from 0 i have "fst (finalize_storages E (rag wr) (world s)) = Some e"
    by (simp add: finalize_each_def)
  moreover from 0(2) have "max_instances s \<le> int (length (instances s))" by simp
  ultimately show ?case using evict_oldest_logs_warning [OF i] by blast
next
  case (Suc i)
  then obtain k wr rest where i: "instances s = (k, wr) # rest"
    by (cases "instances s") auto
  from Suc.prems(2) have cap: "max_instances s \<le> int (length (instances s))" by simp
  from evict_oldest_step [OF i cap, of E] obtain s1 where
    s1: "evict_oldest E s = evict_oldest E s1" "instances s1 = rest"
    "max_instances s1 = max_instances s"
    "world s1 = snd (finalize_storages E (rag wr) (world s))" by blast
  have a: "i < length (instances s1)" using Suc.prems(1) i s1(2) by simp
  have b: "int i \<le> int (length (instances s1)) - max_instances s1"
    using Suc.prems(2) i s1(2,3) by simp
  have c: "fst (finalize_storages E (rag (snd (instances s1 ! i)))
                (finalize_each E (map (\<lambda>(c, w). rag w) (take i (instances s1))) (world s1))) = Some e"
    using Suc.prems(3) i s1(2,4) by (simp add: finalize_each_Cons)
  from Suc.IH [OF a b c] s1(1) show ?case by simp
qed

lemma cleanup_loop_logs_warning_at:
  assumes "distinct cids" and "set cids \<subseteq> set (map fst (instances s))"
    and "i < length cids"
    and "fst (finalize_storages E (rag (the (map_of (instances s) (cids ! i))))
                (finalize_each E (map (\<lambda>k. rag (the (map_of (instances s) k))) (take i cids)) (world s)))
         = Some e"
  shows "(WARNING, ''Error finalizing expired RAG instance: '' @ exn_str e) \<in>
           set (logs (snd (cleanup_loop E cids s)))"
  using assms
proof (induction cids arbitrary: s i)
  case Nil
  then show ?case by simp
next
  case (Cons cid rest)
  from Cons.prems(2) obtain wr where wr: "map_of (instances s) cid = Some wr"
  proof -
    have "cid \<in> set (map fst (instances s))" using Cons.prems(2) by auto
    hence "map_of (instances s) cid \<noteq> None" by (simp only: map_of_None_keys not_not)
    thus ?thesis using that by blast
  qed
  show ?case
  proof (cases i)
    case 0
    with Cons.prems(4) wr have "fst (finalize_storages E (rag wr) (world s)) = Some e"
      by (simp add: finalize_each_def)
    from cleanup_loop_logs_warning [OF wr this] show ?thesis .
  next
    case (Suc j)
    define s1 where "s1 = try_finalize E wr (Some (INFO, ''Cleaned up expired LightRAG instance: '' @ cid))
               ''Error finalizing expired RAG instance: ''
               (s\<lparr>instances := AList.delete cid (instances s)\<rparr>)"
    have step: "cleanup_loop E (cid # rest) s = cleanup_loop E rest s1"
      using wr by (simp add: pop_present s1_def)
    have i1: "instances s1 = AList.delete cid (instances s)" by (simp add: s1_def)
    have w1: "world s1 = snd (finalize_storages E (rag wr) (world s))" by (simp add: s1_def)
    have dr: "distinct rest" and nin: "cid \<notin> set rest" using Cons.prems(1) by simp_all
    have sub: "set rest \<subseteq> set (map fst (instances s1))"
      using Cons.prems(1,2) by (auto simp: i1 AList.delete_keys)
    have j: "j < length rest" using Cons.prems(3) Suc by simp
    have lk: "\<And>k. k \<in> set rest \<Longrightarrow> map_of (instances s1) k = map_of (instances s) k"
      using nin by (auto simp: i1 AList.delete_conv')
    have lk1: "map (\<lambda>k. rag (the (map_of (instances s1) k))) (take j rest) =
               map (\<lambda>k. rag (the (map_of (instances s) k))) (take j rest)"
    proof (rule map_cong [OF refl])
      fix k assume "k \<in> set (take j rest)"
      hence "k \<in> set rest" by (rule in_set_takeD)
      thus "rag (the (map_of (instances s1) k)) = rag (the (map_of (instances s) k))"
        by (simp add: lk)
    qed
    have lk2: "map_of (instances s1) (rest ! j) = map_of (instances s) (rest ! j)"
      using j by (simp add: lk)
    have c: "fst (finalize_storages E (rag (the (map_of (instances s1) (rest ! j))))
                (finalize_each E (map (\<lambda>k. rag (the (map_of (instances s1) k))) (take j rest)) (world s1)))
             = Some e"
      using Cons.prems(4) Suc wr by (simp add: lk1 lk2 w1 finalize_each_Cons)
    from Cons.IH [OF dr sub j c] step show ?thesis by simp
  qed
qed

lemma fold_close_logs_warning_at:
  assumes "i < length xs"
    and "fst (finalize_storages E (rag (snd (xs ! i)))
                (finalize_each E (map (\<lambda>(c, w). rag w) (take i xs)) (world s))) = Some e"
  shows "(WARNING, warn (fst (xs ! i)) @ exn_str e) \<in>
           set (logs (fold (\<lambda>(cid, wr). try_finalize E wr (ok cid) (warn cid)) xs s))"
  using assms
proof (induction xs arbitrary: s i)
  case Nil
  then show ?case by simp
next
  case (Cons p xs)
  obtain k wr where p: "p = (k, wr)" by (cases p)
  define s1 where "s1 = try_finalize E wr (ok k) (warn k) s"
  have f: "fold (\<lambda>(cid, wr). try_finalize E wr (ok cid) (warn cid)) (p # xs) s =
           fold (\<lambda>(cid, wr). try_finalize E wr (ok cid) (warn cid)) xs s1"
    by (simp add: p s1_def)
  have w1: "world s1 = snd (finalize_storages E (rag wr) (world s))" by (simp add: s1_def)
  show ?case
  proof (cases i)
    case 0
    with Cons.prems(2) p have "fst (finalize_storages E (rag wr) (world s)) = Some e"
      by (simp add: finalize_each_def)
    from try_finalize_fails [OF this]
    have "(WARNING, warn k @ exn_str e) \<in> set (logs s1)" by (simp add: s1_def)
    with 0 p fold_close_logs [of s1 E ok warn xs] show ?thesis unfolding f by auto
  next
    case (Suc j)
    have j: "j < length xs" using Cons.prems(1) Suc by simp
    have c: "fst (finalize_storages E (rag (snd (xs ! j)))
                (finalize_each E (map (\<lambda>(c, w). rag w) (take j xs)) (world s1))) = Some e"
      using Cons.prems(2) Suc p by (simp add: w1 finalize_each_Cons)
    from Cons.IH [OF j c] Suc show ?thesis unfolding f by simp
  qed
qed

lemma lookup_sublist:
  assumes "distinct (map fst xs)" and "set ys \<subseteq> set xs"
  shows "map (\<lambda>k. f (the (map_of xs k))) (map fst ys) = map (\<lambda>(c, w). f w) ys"
proof -
  have "\<And>k v. (k, v) \<in> set ys \<Longrightarrow> map_of xs k = Some v"
    using assms by (auto simp: map_of_eq_Some_iff)
  then show ?thesis by (auto)
qed

lemma key_not_in_drop:
  assumes "distinct (map fst xs)" and "i < n" and "i < length xs"
  shows "fst (xs ! i) \<notin> set (map fst (drop n xs))"
proof -
  have "distinct (map fst (take n xs) @ map fst (drop n xs))"
    using assms(1) by (simp only: map_append [symmetric] append_take_drop_id)
  then have d: "set (map fst (take n xs)) \<inter> set (map fst (drop n xs)) = {}" by simp
  have "xs ! i \<in> set (take n xs)"
    using assms(2,3) by (metis in_set_conv_nth length_take min_less_iff_conj nth_take)
  then have "fst (xs ! i) \<in> set (map fst (take n xs))" by simp
  with d show ?thesis by blast
qed

lemma get_miss_result:
  assumes "map_of (instances s) cid = None" and "1 \<le> max_instances s"
  shows "fst (get E cid s) =
         fst (create_instance E cid
                (logger INFO (''Creating new LightRAG instance for collection: '' @ cid)
                   (snd (evict_oldest E s))))"
proof -
  obtain r s' where g: "get E cid s = (r, s')" using prod.exhaust by blast
  from g have "r = fst (create_instance E cid
                (logger INFO (''Creating new LightRAG instance for collection: '' @ cid)
                   (snd (evict_oldest E s))))"
  proof (cases rule: get_cases)
    case (hit wr now w1)
    with assms(1) show ?thesis by simp
  next
    case (empty e')
    with evict_oldest_result(2) [OF empty(2)] assms(2) show ?thesis by simp
  next
    case (failed s1 e')
    then show ?thesis by simp
  next
    case (created s1 h s2 t1 w1 t2 w2)
    then show ?thesis by simp
  qed
  with g show ?thesis by simp
qed

lemma get_construct_fails:
  assumes "map_of (instances s) cid = None" and "1 \<le> max_instances s"
    and "fst (create_instance E cid
                (logger INFO (''Creating new LightRAG instance for collection: '' @ cid)
                   (snd (evict_oldest E s)))) = Inl e"
  shows "fst (get E cid s) = Inl e \<and> cid \<notin> set (map fst (instances (snd (get E cid s))))"
proof -
  have r: "fst (get E cid s) = Inl e"
    unfolding get_miss_result [OF assms(1,2)] by (rule assms(3))
  then have "get E cid s = (Inl e, snd (get E cid s))" by (metis prod.collapse)
  from get_raise_not_added [OF assms(1) this] r show ?thesis by simp
qed

lemma get_miss_logs:
  assumes "map_of (instances s) cid = None"
  shows "set (logs (snd (evict_oldest E s))) \<subseteq> set (logs (snd (get E cid s)))"
proof -
  obtain r s' where g: "get E cid s = (r, s')" using prod.exhaust by blast
  from g have "set (logs (snd (evict_oldest E s))) \<subseteq> set (logs s')"
  proof (cases rule: get_cases)
    case (hit wr now w1)
    with assms(1) show ?thesis by simp
  next
    case (empty e')
    then show ?thesis by simp
  next
    case (failed s1 e')
    have "set (logs s1) \<subseteq>
      set (logs (logger INFO (''Creating new LightRAG instance for collection: '' @ cid) s1))"
      by auto
    with create_instance_logs [OF failed(3)] failed(2) show ?thesis by auto
  next
    case (created s1 h s2 t1 w1 t2 w2)
    have "set (logs s1) \<subseteq>
      set (logs (logger INFO (''Creating new LightRAG instance for collection: '' @ cid) s1))"
      by auto
    with create_instance_logs [OF created(3)] created(2,7) show ?thesis by auto
  qed
  with g show ?thesis by simp
qed

lemma get_miss_evicted_key:
  assumes "map_of (instances s) cid = None" and "distinct (map fst (instances s))"
    and "i < length (instances s)" and "int i \<le> int (length (instances s)) - max_instances s"
  shows "fst (instances s ! i) \<notin> set (map fst (instances (snd (get E cid s))))"
proof -
  obtain r s' where g: "get E cid s = (r, s')" using prod.exhaust by blast
  define n where "n = nat (int (length (instances s)) + 1 - max_instances s)"
  have "i < n" using assms(4) by (simp add: n_def)
  from key_not_in_drop [OF assms(2) this assms(3)]
  have a: "fst (instances s ! i) \<notin> set (map fst (drop n (instances s)))" .
  have "fst (instances s ! i) \<in> set (map fst (instances s))" using assms(3) by simp
  with assms(1) have b: "fst (instances s ! i) \<noteq> cid" by (auto simp: map_of_None_keys)
  from get_miss [OF assms(1) g, folded n_def] a b
  have "fst (instances s ! i) \<notin> set (map fst (instances s'))"
    by (cases r) auto
  with g show ?thesis by simp
qed

lemma cleanup_expired_warning_at:
  assumes dist: "distinct (map fst (instances s))"
    and clock: "time_time E (world s) = (now, w1)"
    and ex: "expired = filter (\<lambda>(c, w). is_expired now (ttl_seconds s) w) (instances s)"
    and i: "i < length expired"
    and fail: "fst (finalize_storages E (rag (snd (expired ! i)))
                 (finalize_each E (map (\<lambda>(c, w). rag w) (take i expired)) w1)) = Some e"
  shows "(WARNING, ''Error finalizing expired RAG instance: '' @ exn_str e) \<in>
           set (logs (snd (cleanup_expired E s)))"
proof -
  define cids where "cids = map fst expired"
  define s0 where "s0 = s\<lparr>world := w1\<rparr>"
  have i0: "instances s0 = instances s" and w0: "world s0 = w1" by (simp_all add: s0_def)
  have de: "distinct cids" using dist by (simp add: cids_def ex distinct_map_filter)
  have sub: "set cids \<subseteq> set (map fst (instances s0))" by (auto simp: cids_def ex i0)
  have ic: "i < length cids" using i by (simp add: cids_def)
  have s1: "set (take i expired) \<subseteq> set (instances s)"
    by (auto simp: ex dest: in_set_takeD)
  have t: "map (\<lambda>k. rag (the (map_of (instances s) k))) (take i cids) =
           map (\<lambda>(c, w). rag w) (take i expired)"
    unfolding cids_def take_map by (rule lookup_sublist [OF dist s1])
  have "expired ! i \<in> set (instances s)" using i by (auto simp: ex dest: nth_mem)
  then have "(fst (expired ! i), snd (expired ! i)) \<in> set (instances s)" by simp
  with dist have "map_of (instances s) (fst (expired ! i)) = Some (snd (expired ! i))"
    by (simp only: map_of_eq_Some_iff)
  then have n: "the (map_of (instances s) (cids ! i)) = snd (expired ! i)"
    using i by (simp add: cids_def)
  have c: "fst (finalize_storages E (rag (the (map_of (instances s0) (cids ! i))))
              (finalize_each E (map (\<lambda>k. rag (the (map_of (instances s0) k))) (take i cids)) (world s0)))
           = Some e"
    unfolding i0 w0 t n by (rule fail)
  note L = cleanup_loop_logs_warning_at [OF de sub ic c]
  have cu: "snd (cleanup_expired E s) = snd (cleanup_loop E cids s0)"
    using clock by (simp add: cleanup_expired_def Let_def cids_def ex s0_def split: prod.splits option.splits)
  show ?thesis unfolding cu by (rule L)
qed

lemma close_all_warning_at:
  assumes "i < length (instances s)"
    and "fst (finalize_storages E (rag (snd (instances s ! i)))
                (finalize_each E (map (\<lambda>(c, w). rag w) (take i (instances s))) (world s))) = Some e"
  shows "(WARNING, ''Error closing RAG instance '' @ fst (instances s ! i) @ '': '' @ exn_str e) \<in>
           set (logs (close_all E s))"
proof -
  define s1 where "s1 = logger INFO (''Closing '' @ str_nat (length (instances s)) @ '' LightRAG instances...'') s"
  have i1: "instances s1 = instances s" and w1: "world s1 = world s" by (simp_all add: s1_def)
  define s2 where "s2 = fold (\<lambda>(cid, wrapper). try_finalize E wrapper
                        (Some (DEBUG, ''Closed LightRAG instance: '' @ cid))
                        (''Error closing RAG instance '' @ cid @ '': '')) (instances s) s1"
  have "(WARNING, (''Error closing RAG instance '' @ fst (instances s ! i) @ '': '') @ exn_str e) \<in> set (logs s2)"
    unfolding s2_def
    by (rule fold_close_logs_warning_at [where warn = "\<lambda>cid. ''Error closing RAG instance '' @ cid @ '': ''"
          and ok = "\<lambda>cid. Some (DEBUG, ''Closed LightRAG instance: '' @ cid)", OF assms(1)])
       (simp only: w1 assms(2))
  then have m: "(WARNING, ''Error closing RAG instance '' @ fst (instances s ! i) @ '': '' @ exn_str e) \<in> set (logs s2)"
    by (simp only: append_assoc)
  have "close_all E s = logger INFO ''All LightRAG instances closed'' (s2\<lparr>instances := []\<rparr>)"
    by (simp only: close_all_def Let_def s1_def [symmetric] i1 s2_def [symmetric])
  then have "logs (close_all E s) = logs s2 @ [(INFO, ''All LightRAG instances closed'')]"
    by (simp add: logger_def)
  with m show ?thesis by simp
qed

text \<open>
  Claim C8. Each part speaks of one call to the backend, the one that the operation
  makes, in the world that call finds; the backend may answer any other call as it
  likes.

  Construction during a \<^verbatim>\<open>get\<close> miss (capacity at least 1, so that the eviction loop
  ends and the constructor is reached): when the constructor raises in the world that
  the eviction loop leaves, or returns a handle whose \<^verbatim>\<open>initialize_storages\<close> then
  raises, \<^verbatim>\<open>get\<close> raises that exception and the key is not in the pool afterwards.

  Close during eviction: when \<^verbatim>\<open>finalize_storages\<close> raises for the entry at position
  \<open>i\<close> among those the loop evicts, in the world left by the closes of the entries
  before it, the loop ends as it would have (normally when the capacity is at least 1),
  every entry it was to evict is gone, and the warning is logged; the \<^verbatim>\<open>get\<close> that ran
  the loop goes on to the constructor and its outcome is the constructor's, the evicted
  key is not in the pool and the warning is in its log.

  Close during TTL cleanup and during shutdown: when \<^verbatim>\<open>finalize_storages\<close> raises for
  the entry at position \<open>i\<close> of the expired entries (of all entries, for \<^verbatim>\<open>close_all\<close>),
  \<^verbatim>\<open>cleanup_expired\<close> still returns the number of expired entries and leaves exactly
  the entries that were not expired, \<^verbatim>\<open>close_all\<close> still empties the pool, and each logs
  the warning.
\<close>

theorem pool_failure_semantics:
  "(map_of (instances (s :: ('h, 'w) state)) cid = None \<and> 1 \<le> max_instances s \<and>
    fst (LightRAG (E :: ('h, 'w) env) (workspace_name cid) (world (snd (evict_oldest E s)))) = Inl e \<longrightarrow>
      fst (get E cid s) = Inl e \<and> cid \<notin> set (map fst (instances (snd (get E cid s))))) \<and>
   (map_of (instances s) cid = None \<and> 1 \<le> max_instances s \<and>
    LightRAG E (workspace_name cid) (world (snd (evict_oldest E s))) = (Inr h, w1) \<and>
    fst (initialize_storages E h w1) = Some e \<longrightarrow>
      fst (get E cid s) = Inl e \<and> cid \<notin> set (map fst (instances (snd (get E cid s))))) \<and>
   (i < length (instances s) \<and> int i \<le> int (length (instances s)) - max_instances s \<and>
    fst (finalize_storages E (rag (snd (instances s ! i)))
           (finalize_each E (map (\<lambda>(c, w). rag w) (take i (instances s))) (world s))) = Some e \<longrightarrow>
      fst (evict_oldest E s) =
        (if 1 \<le> max_instances s then None else Some (Exn KeyError (repr ''dictionary is empty''))) \<and>
      instances (snd (evict_oldest E s)) =
        drop (nat (int (length (instances s)) + 1 - max_instances s)) (instances s) \<and>
      (WARNING, ''Error finalizing evicted RAG instance: '' @ exn_str e) \<in>
        set (logs (snd (evict_oldest E s)))) \<and>
   (map_of (instances s) cid = None \<and> distinct (map fst (instances s)) \<and> 1 \<le> max_instances s \<and>
    i < length (instances s) \<and> int i \<le> int (length (instances s)) - max_instances s \<and>
    fst (finalize_storages E (rag (snd (instances s ! i)))
           (finalize_each E (map (\<lambda>(c, w). rag w) (take i (instances s))) (world s))) = Some e \<longrightarrow>
      fst (get E cid s) =
        fst (create_instance E cid
               (logger INFO (''Creating new LightRAG instance for collection: '' @ cid)
                  (snd (evict_oldest E s)))) \<and>
      fst (instances s ! i) \<notin> set (map fst (instances (snd (get E cid s)))) \<and>
      (WARNING, ''Error finalizing evicted RAG instance: '' @ exn_str e) \<in>
        set (logs (snd (get E cid s)))) \<and>
   (distinct (map fst (instances s)) \<and> time_time E (world s) = (now, w1) \<and>
    expired = filter (\<lambda>(c, w). is_expired now (ttl_seconds s) w) (instances s) \<and>
    i < length expired \<and>
    fst (finalize_storages E (rag (snd (expired ! i)))
           (finalize_each E (map (\<lambda>(c, w). rag w) (take i expired)) w1)) = Some e \<longrightarrow>
      fst (cleanup_expired E s) = Inr (int (length expired)) \<and>
      instances (snd (cleanup_expired E s)) =
        filter (\<lambda>(c, w). \<not> is_expired now (ttl_seconds s) w) (instances s) \<and>
      fst (expired ! i) \<notin> set (map fst (instances (snd (cleanup_expired E s)))) \<and>
      (WARNING, ''Error finalizing expired RAG instance: '' @ exn_str e) \<in>
        set (logs (snd (cleanup_expired E s)))) \<and>
   (i < length (instances s) \<and>
    fst (finalize_storages E (rag (snd (instances s ! i)))
           (finalize_each E (map (\<lambda>(c, w). rag w) (take i (instances s))) (world s))) = Some e \<longrightarrow>
      instances (close_all E s) = [] \<and>
      (WARNING, ''Error closing RAG instance '' @ fst (instances s ! i) @ '': '' @ exn_str e) \<in>
        set (logs (close_all E s)))"
proof -
  have c1: "map_of (instances s) cid = None \<and> 1 \<le> max_instances s \<and>
    fst (LightRAG E (workspace_name cid) (world (snd (evict_oldest E s)))) = Inl e \<longrightarrow>
      fst (get E cid s) = Inl e \<and> cid \<notin> set (map fst (instances (snd (get E cid s))))"
  proof (intro impI)
    assume a: "map_of (instances s) cid = None \<and> 1 \<le> max_instances s \<and>
      fst (LightRAG E (workspace_name cid) (world (snd (evict_oldest E s)))) = Inl e"
    define s1 where "s1 = logger INFO (''Creating new LightRAG instance for collection: '' @ cid)
                   (snd (evict_oldest E s))"
    have "world s1 = world (snd (evict_oldest E s))" by (simp add: s1_def)
    with a have "fst (LightRAG E (workspace_name cid) (world s1)) = Inl e" by simp
    then have "fst (create_instance E cid s1) = Inl e" by (rule create_instance_fails(1))
    from get_construct_fails [OF a [THEN conjunct1] a [THEN conjunct2, THEN conjunct1]
        this [unfolded s1_def]]
    show "fst (get E cid s) = Inl e \<and> cid \<notin> set (map fst (instances (snd (get E cid s))))" .
  qed
  have c2: "map_of (instances s) cid = None \<and> 1 \<le> max_instances s \<and>
    LightRAG E (workspace_name cid) (world (snd (evict_oldest E s))) = (Inr h, w1) \<and>
    fst (initialize_storages E h w1) = Some e \<longrightarrow>
      fst (get E cid s) = Inl e \<and> cid \<notin> set (map fst (instances (snd (get E cid s))))"
  proof (intro impI)
    assume a: "map_of (instances s) cid = None \<and> 1 \<le> max_instances s \<and>
      LightRAG E (workspace_name cid) (world (snd (evict_oldest E s))) = (Inr h, w1) \<and>
      fst (initialize_storages E h w1) = Some e"
    define s1 where "s1 = logger INFO (''Creating new LightRAG instance for collection: '' @ cid)
                   (snd (evict_oldest E s))"
    have w: "world s1 = world (snd (evict_oldest E s))" by (simp add: s1_def)
    from a have l: "LightRAG E (workspace_name cid) (world s1) = (Inr h, w1)"
      and f: "fst (initialize_storages E h w1) = Some e" by (simp_all only: w)
    from l have l1: "fst (LightRAG E (workspace_name cid) (world s1)) = Inr h" by simp
    from l f have "fst (initialize_storages E h (snd (LightRAG E (workspace_name cid) (world s1)))) = Some e"
      by simp
    with l1 have "fst (create_instance E cid s1) = Inl e" by (rule create_instance_fails(2))
    from get_construct_fails [OF a [THEN conjunct1] a [THEN conjunct2, THEN conjunct1]
        this [unfolded s1_def]]
    show "fst (get E cid s) = Inl e \<and> cid \<notin> set (map fst (instances (snd (get E cid s))))" .
  qed
  have c3: "i < length (instances s) \<and> int i \<le> int (length (instances s)) - max_instances s \<and>
    fst (finalize_storages E (rag (snd (instances s ! i)))
           (finalize_each E (map (\<lambda>(c, w). rag w) (take i (instances s))) (world s))) = Some e \<longrightarrow>
      fst (evict_oldest E s) =
        (if 1 \<le> max_instances s then None else Some (Exn KeyError (repr ''dictionary is empty''))) \<and>
      instances (snd (evict_oldest E s)) =
        drop (nat (int (length (instances s)) + 1 - max_instances s)) (instances s) \<and>
      (WARNING, ''Error finalizing evicted RAG instance: '' @ exn_str e) \<in>
        set (logs (snd (evict_oldest E s)))"
  proof (intro impI conjI)
    assume a: "i < length (instances s) \<and> int i \<le> int (length (instances s)) - max_instances s \<and>
      fst (finalize_storages E (rag (snd (instances s ! i)))
           (finalize_each E (map (\<lambda>(c, w). rag w) (take i (instances s))) (world s))) = Some e"
    show "fst (evict_oldest E s) =
        (if 1 \<le> max_instances s then None else Some (Exn KeyError (repr ''dictionary is empty'')))"
      by (rule evict_oldest_fst)
    show "instances (snd (evict_oldest E s)) =
        drop (nat (int (length (instances s)) + 1 - max_instances s)) (instances s)"
      by (rule evict_oldest_instances)
    show "(WARNING, ''Error finalizing evicted RAG instance: '' @ exn_str e) \<in>
        set (logs (snd (evict_oldest E s)))"
      by (rule evict_oldest_logs_warning_at [OF a [THEN conjunct1] a [THEN conjunct2, THEN conjunct1]
            a [THEN conjunct2, THEN conjunct2]])
  qed
  have c4: "map_of (instances s) cid = None \<and> distinct (map fst (instances s)) \<and> 1 \<le> max_instances s \<and>
    i < length (instances s) \<and> int i \<le> int (length (instances s)) - max_instances s \<and>
    fst (finalize_storages E (rag (snd (instances s ! i)))
           (finalize_each E (map (\<lambda>(c, w). rag w) (take i (instances s))) (world s))) = Some e \<longrightarrow>
      fst (get E cid s) =
        fst (create_instance E cid
               (logger INFO (''Creating new LightRAG instance for collection: '' @ cid)
                  (snd (evict_oldest E s)))) \<and>
      fst (instances s ! i) \<notin> set (map fst (instances (snd (get E cid s)))) \<and>
      (WARNING, ''Error finalizing evicted RAG instance: '' @ exn_str e) \<in>
        set (logs (snd (get E cid s)))"
  proof (intro impI conjI)
    assume a: "map_of (instances s) cid = None \<and> distinct (map fst (instances s)) \<and> 1 \<le> max_instances s \<and>
      i < length (instances s) \<and> int i \<le> int (length (instances s)) - max_instances s \<and>
      fst (finalize_storages E (rag (snd (instances s ! i)))
           (finalize_each E (map (\<lambda>(c, w). rag w) (take i (instances s))) (world s))) = Some e"
    note miss = a [THEN conjunct1] and dist = a [THEN conjunct2, THEN conjunct1]
      and cap = a [THEN conjunct2, THEN conjunct2, THEN conjunct1]
      and il = a [THEN conjunct2, THEN conjunct2, THEN conjunct2, THEN conjunct1]
      and ie = a [THEN conjunct2, THEN conjunct2, THEN conjunct2, THEN conjunct2, THEN conjunct1]
      and fl = a [THEN conjunct2, THEN conjunct2, THEN conjunct2, THEN conjunct2, THEN conjunct2]
    show "fst (get E cid s) =
        fst (create_instance E cid
               (logger INFO (''Creating new LightRAG instance for collection: '' @ cid)
                  (snd (evict_oldest E s))))"
      by (rule get_miss_result [OF miss cap])
    show "fst (instances s ! i) \<notin> set (map fst (instances (snd (get E cid s))))"
      by (rule get_miss_evicted_key [OF miss dist il ie])
    from evict_oldest_logs_warning_at [OF il ie fl] get_miss_logs [OF miss, of E]
    show "(WARNING, ''Error finalizing evicted RAG instance: '' @ exn_str e) \<in>
        set (logs (snd (get E cid s)))" by (rule set_mp [rotated])
  qed
  have c5: "distinct (map fst (instances s)) \<and> time_time E (world s) = (now, w1) \<and>
    expired = filter (\<lambda>(c, w). is_expired now (ttl_seconds s) w) (instances s) \<and>
    i < length expired \<and>
    fst (finalize_storages E (rag (snd (expired ! i)))
           (finalize_each E (map (\<lambda>(c, w). rag w) (take i expired)) w1)) = Some e \<longrightarrow>
      fst (cleanup_expired E s) = Inr (int (length expired)) \<and>
      instances (snd (cleanup_expired E s)) =
        filter (\<lambda>(c, w). \<not> is_expired now (ttl_seconds s) w) (instances s) \<and>
      fst (expired ! i) \<notin> set (map fst (instances (snd (cleanup_expired E s)))) \<and>
      (WARNING, ''Error finalizing expired RAG instance: '' @ exn_str e) \<in>
        set (logs (snd (cleanup_expired E s)))"
  proof (intro impI)
    assume a: "distinct (map fst (instances s)) \<and> time_time E (world s) = (now, w1) \<and>
      expired = filter (\<lambda>(c, w). is_expired now (ttl_seconds s) w) (instances s) \<and>
      i < length expired \<and>
      fst (finalize_storages E (rag (snd (expired ! i)))
           (finalize_each E (map (\<lambda>(c, w). rag w) (take i expired)) w1)) = Some e"
    note dist = a [THEN conjunct1] and clock = a [THEN conjunct2, THEN conjunct1]
      and ex = a [THEN conjunct2, THEN conjunct2, THEN conjunct1]
      and il = a [THEN conjunct2, THEN conjunct2, THEN conjunct2, THEN conjunct1]
      and fl = a [THEN conjunct2, THEN conjunct2, THEN conjunct2, THEN conjunct2]
    note S = cleanup_expired_spec [OF dist clock]
    have r1: "fst (cleanup_expired E s) = Inr (int (length expired))"
      unfolding ex by (rule S(1))
    have r2: "instances (snd (cleanup_expired E s)) =
        filter (\<lambda>(c, w). \<not> is_expired now (ttl_seconds s) w) (instances s)"
      by (rule S(2))
    have m: "expired ! i \<in> set expired" using il by (rule nth_mem)
    then have m1: "expired ! i \<in> set (instances s)"
      and m2: "is_expired now (ttl_seconds s) (snd (expired ! i))"
      by (auto simp: ex)
    have r3: "fst (expired ! i) \<notin> set (map fst (instances (snd (cleanup_expired E s))))"
    proof
      assume "fst (expired ! i) \<in> set (map fst (instances (snd (cleanup_expired E s))))"
      then obtain v where v: "(fst (expired ! i), v) \<in> set (instances s)"
        "\<not> is_expired now (ttl_seconds s) v"
        unfolding r2 by auto
      from m1 have "(fst (expired ! i), snd (expired ! i)) \<in> set (instances s)" by simp
      with v(1) dist have "v = snd (expired ! i)" by (metis eq_key_imp_eq_value)
      with v(2) m2 show False by simp
    qed
    have r4: "(WARNING, ''Error finalizing expired RAG instance: '' @ exn_str e) \<in>
        set (logs (snd (cleanup_expired E s)))"
      by (rule cleanup_expired_warning_at [OF dist clock ex il fl])
    from r1 r2 r3 r4 show "fst (cleanup_expired E s) = Inr (int (length expired)) \<and>
      instances (snd (cleanup_expired E s)) =
        filter (\<lambda>(c, w). \<not> is_expired now (ttl_seconds s) w) (instances s) \<and>
      fst (expired ! i) \<notin> set (map fst (instances (snd (cleanup_expired E s)))) \<and>
      (WARNING, ''Error finalizing expired RAG instance: '' @ exn_str e) \<in>
        set (logs (snd (cleanup_expired E s)))" by (intro conjI)
  qed
  have c6: "i < length (instances s) \<and>
    fst (finalize_storages E (rag (snd (instances s ! i)))
           (finalize_each E (map (\<lambda>(c, w). rag w) (take i (instances s))) (world s))) = Some e \<longrightarrow>
      instances (close_all E s) = [] \<and>
      (WARNING, ''Error closing RAG instance '' @ fst (instances s ! i) @ '': '' @ exn_str e) \<in>
        set (logs (close_all E s))"
  proof (intro impI conjI)
    assume a: "i < length (instances s) \<and>
      fst (finalize_storages E (rag (snd (instances s ! i)))
           (finalize_each E (map (\<lambda>(c, w). rag w) (take i (instances s))) (world s))) = Some e"
    show "instances (close_all E s) = []" by (rule close_all_instances)
    show "(WARNING, ''Error closing RAG instance '' @ fst (instances s ! i) @ '': '' @ exn_str e) \<in>
        set (logs (close_all E s))"
      by (rule close_all_warning_at [OF a [THEN conjunct1] a [THEN conjunct2]])
  qed
  from c1 c2 c3 c4 c5 c6 show ?thesis by (intro conjI)
qed

theorem pool_failure_semantics_witness:
  "fst (get flaky_env ''c'' full_state) = Inl (Exn OtherError ''connection refused'') \<and>
   map fst (instances (snd (get flaky_env ''c'' full_state))) = [''new''] \<and>
   (WARNING, ''Error finalizing evicted RAG instance: close failed'') \<in>
      set (logs (snd (get flaky_env ''c'' full_state))) \<and>
   fst (get flaky_env ''c'' (snd (get flaky_env ''c'' full_state))) = Inr ''ws_c'' \<and>
   map fst (instances (snd (get flaky_env ''c'' (snd (get flaky_env ''c'' full_state))))) =
      [''new'', ''c''] \<and>
   fst (get flaky_env ''b'' (full_state\<lparr>world := 401\<rparr>)) = Inl (Exn OtherError ''no database'') \<and>
   ''b'' \<notin> set (map fst (instances (snd (get flaky_env ''b'' (full_state\<lparr>world := 401\<rparr>))))) \<and>
   fst (evict_oldest flaky_env full_state) = None \<and>
   map fst (instances (snd (evict_oldest flaky_env full_state))) = [''new''] \<and>
   (WARNING, ''Error finalizing evicted RAG instance: close failed'') \<in>
      set (logs (snd (evict_oldest flaky_env full_state))) \<and>
   fst (cleanup_expired flaky_env full_state) = Inr 1 \<and>
   map fst (instances (snd (cleanup_expired flaky_env full_state))) = [''new''] \<and>
   (WARNING, ''Error finalizing expired RAG instance: close failed'') \<in>
      set (logs (snd (cleanup_expired flaky_env full_state))) \<and>
   instances (close_all flaky_env full_state) = [] \<and>
   (WARNING, ''Error closing RAG instance old: close failed'') \<in>
      set (logs (close_all flaky_env full_state))"
proof -
  define e where "e = Exn OtherError ''close failed''"
  define old where "old = \<lparr>rag = ''ws_old'', w_collection_id = ''old'', created_at = 0, last_used = 0 :: real\<rparr>"
  define new where "new = \<lparr>rag = ''ws_new'', w_collection_id = ''new'', created_at = 350, last_used = 350 :: real\<rparr>"
  have es: "exn_str e = ''close failed''" by (simp add: e_def)
  have i: "instances full_state = [(''old'', old), (''new'', new)]"
    and m: "max_instances full_state = 2" and t: "ttl_seconds full_state = 300"
    and w: "world full_state = 400"
    by (simp_all add: full_state_def fake_state_def old_def new_def)
  have ro: "rag old = ''ws_old''" and rn: "rag new = ''ws_new''"
    and lo: "last_used old = 0" and ln: "last_used new = 350"
    by (simp_all add: old_def new_def)
  have fz: "\<And>w. finalize_storages flaky_env ''ws_old'' w = (Some e, w)"
    by (simp add: flaky_env_def e_def)
  have tt: "time_time flaky_env (world full_state) = (400, 401)"
    by (simp add: flaky_env_def fake_env_def w)
  have we: "world (snd (evict_oldest flaky_env full_state)) = 400"
    by (simp add: full_state_def flaky_env_def eval_defs)
  have we': "world (snd (evict_oldest flaky_env (full_state\<lparr>world := 401\<rparr>))) = 401"
    by (simp add: full_state_def flaky_env_def eval_defs)
  have p1: "map_of (instances full_state) ''c'' = None \<and> 1 \<le> max_instances full_state \<and>
      fst (LightRAG flaky_env (workspace_name ''c'') (world (snd (evict_oldest flaky_env full_state)))) =
        Inl (Exn OtherError ''connection refused'')"
    unfolding we by (simp add: i m flaky_env_def)
  have p2: "map_of (instances (full_state\<lparr>world := 401\<rparr>)) ''b'' = None \<and>
      1 \<le> max_instances (full_state\<lparr>world := 401\<rparr>) \<and>
      LightRAG flaky_env (workspace_name ''b'')
        (world (snd (evict_oldest flaky_env (full_state\<lparr>world := 401\<rparr>)))) = (Inr ''ws_b'', 401) \<and>
      fst (initialize_storages flaky_env ''ws_b'' 401) = Some (Exn OtherError ''no database'')"
    unfolding we' by (simp add: i m flaky_env_def workspace_name_def)
  have p3: "0 < length (instances full_state) \<and>
      int 0 \<le> int (length (instances full_state)) - max_instances full_state \<and>
      fst (finalize_storages flaky_env (rag (snd (instances full_state ! 0)))
            (finalize_each flaky_env (map (\<lambda>(c, w). rag w) (take 0 (instances full_state)))
               (world full_state))) = Some e"
    by (simp add: i m ro fz finalize_each_def)
  have p4: "map_of (instances full_state) ''c'' = None \<and> distinct (map fst (instances full_state)) \<and>
      1 \<le> max_instances full_state \<and> 0 < length (instances full_state) \<and>
      int 0 \<le> int (length (instances full_state)) - max_instances full_state \<and>
      fst (finalize_storages flaky_env (rag (snd (instances full_state ! 0)))
            (finalize_each flaky_env (map (\<lambda>(c, w). rag w) (take 0 (instances full_state)))
               (world full_state))) = Some e"
    by (simp add: i m ro fz finalize_each_def)
  have p5: "distinct (map fst (instances full_state)) \<and>
      time_time flaky_env (world full_state) = (400, 401) \<and>
      [(''old'', old)] = filter (\<lambda>(c, w). is_expired 400 (ttl_seconds full_state) w) (instances full_state) \<and>
      0 < length [(''old'', old)] \<and>
      fst (finalize_storages flaky_env (rag (snd ([(''old'', old)] ! 0)))
            (finalize_each flaky_env (map (\<lambda>(c, w). rag w) (take 0 [(''old'', old)])) 401)) = Some e"
    by (simp add: i t tt ro fz lo ln is_expired_def finalize_each_def)
  note T1 = pool_failure_semantics [where E = flaky_env and s = full_state and cid = "''c''"
      and e = "Exn OtherError ''connection refused''", THEN conjunct1, THEN mp, OF p1]
  note T2 = pool_failure_semantics [where E = flaky_env and s = "full_state\<lparr>world := 401\<rparr>"
      and cid = "''b''" and h = "''ws_b''" and ?w1.0 = 401 and e = "Exn OtherError ''no database''",
      THEN conjunct2, THEN conjunct1, THEN mp, OF p2]
  note T3 = pool_failure_semantics [where E = flaky_env and s = full_state and i = 0 and e = e,
      THEN conjunct2, THEN conjunct2, THEN conjunct1, THEN mp, OF p3]
  note T4 = pool_failure_semantics [where E = flaky_env and s = full_state and cid = "''c''"
      and i = 0 and e = e,
      THEN conjunct2, THEN conjunct2, THEN conjunct2, THEN conjunct1, THEN mp, OF p4]
  note T5 = pool_failure_semantics [where E = flaky_env and s = full_state and i = 0 and e = e
      and now = 400 and ?w1.0 = 401 and expired = "[(''old'', old)]",
      THEN conjunct2, THEN conjunct2, THEN conjunct2, THEN conjunct2, THEN conjunct1, THEN mp, OF p5]
  note T6 = pool_failure_semantics [where E = flaky_env and s = full_state and i = 0 and e = e,
      THEN conjunct2, THEN conjunct2, THEN conjunct2, THEN conjunct2, THEN conjunct2, THEN mp, OF p3 [THEN conjunct1, THEN conjI, OF p3 [THEN conjunct2, THEN conjunct2]]]
  have g1: "map fst (instances (snd (get flaky_env ''c'' full_state))) = [''new'']"
    by (simp add: full_state_def flaky_env_def eval_defs)
  have g2: "fst (get flaky_env ''c'' (snd (get flaky_env ''c'' full_state))) = Inr ''ws_c'' \<and>
    map fst (instances (snd (get flaky_env ''c'' (snd (get flaky_env ''c'' full_state))))) =
      [''new'', ''c'']"
    by (simp add: full_state_def flaky_env_def eval_defs)
  have c1: "fst (get flaky_env ''c'' full_state) = Inl (Exn OtherError ''connection refused'')"
    using T1 by simp
  have c2: "(WARNING, ''Error finalizing evicted RAG instance: close failed'') \<in>
      set (logs (snd (get flaky_env ''c'' full_state)))"
    using T4 [THEN conjunct2, THEN conjunct2] by (simp add: es)
  have c3: "fst (get flaky_env ''b'' (full_state\<lparr>world := 401\<rparr>)) = Inl (Exn OtherError ''no database'') \<and>
   ''b'' \<notin> set (map fst (instances (snd (get flaky_env ''b'' (full_state\<lparr>world := 401\<rparr>)))))"
    using T2 .
  have c4: "fst (evict_oldest flaky_env full_state) = None"
    using T3 [THEN conjunct1] by (simp add: m)
  have c5: "map fst (instances (snd (evict_oldest flaky_env full_state))) = [''new'']"
    using T3 [THEN conjunct2, THEN conjunct1] by (simp add: i m)
  have c6: "(WARNING, ''Error finalizing evicted RAG instance: close failed'') \<in>
      set (logs (snd (evict_oldest flaky_env full_state)))"
    using T3 [THEN conjunct2, THEN conjunct2] by (simp add: es)
  have c7: "fst (cleanup_expired flaky_env full_state) = Inr 1"
    using T5 [THEN conjunct1] by simp
  have c8: "map fst (instances (snd (cleanup_expired flaky_env full_state))) = [''new'']"
    using T5 [THEN conjunct2, THEN conjunct1] by (simp add: i t lo ln is_expired_def)
  have c9: "(WARNING, ''Error finalizing expired RAG instance: close failed'') \<in>
      set (logs (snd (cleanup_expired flaky_env full_state)))"
    using T5 [THEN conjunct2, THEN conjunct2, THEN conjunct2] by (simp add: es)
  have c10: "instances (close_all flaky_env full_state) = []"
    using T6 [THEN conjunct1] .
  have c11: "(WARNING, ''Error closing RAG instance old: close failed'') \<in>
      set (logs (close_all flaky_env full_state))"
    using T6 [THEN conjunct2] by (simp add: es i)
  from c1 g1 c2 g2 [THEN conjunct1] g2 [THEN conjunct2] c3 [THEN conjunct1] c3 [THEN conjunct2]
    c4 c5 c6 c7 c8 c9 c10 c11
  show ?thesis by (intro conjI)
qed

section \<open>The extraction helper\<close>

text \<open>
  Claim C9 as stated fails, twice. An empty blob is returned as it is whatever the
  encoding, so an unknown encoding does not always raise. And a corrupt blob does not
  always raise: \<^verbatim>\<open>base64.b64decode\<close> is called without \<^verbatim>\<open>validate\<close> and skips the
  characters outside its alphabet, so the blob \<open>''!!!!''\<close> decodes to no bytes, whose
  gzip read is empty, and the empty string is returned.
\<close>

theorem decompress_html_counterexample:
  "''brotli'' \<noteq> ''plain'' \<and> ''brotli'' \<noteq> ''gzip+base64'' \<and>
   fst (decompress_html (fake_env [] False False False) [] ''brotli'' (fake_state 2 300)) = Inr [] \<and>
   fst (decompress_html (fake_env [] False False False) ''!!!!'' ''gzip+base64'' (fake_state 2 300)) = Inr []"
  by (simp add: decompress_html_def decode_gzip_base64_def fake_env_def hi_blob_def hi_gzip_def)

text \<open>
  Claim C9, amended. \<^verbatim>\<open>decompress_html\<close> returns the blob unchanged when the encoding is
  \<^verbatim>\<open>"plain"\<close> or the blob is empty. For a blob that is not empty it raises ValueError
  (\<^verbatim>\<open>Unknown encoding: ...\<close>) for every encoding other than \<^verbatim>\<open>"plain"\<close> and
  \<^verbatim>\<open>"gzip+base64"\<close>; under \<^verbatim>\<open>"gzip+base64"\<close> it raises ValueError
  (\<^verbatim>\<open>Failed to decompress HTML: ...\<close>, with the message of the cause) when the base64
  decoding, the gzip read or the UTF-8 decoding raises, and returns the decoded text
  when none of them does. For every input it returns a string or raises a ValueError.
\<close>

theorem decompress_html_cases:
  "(enc = ''plain'' \<or> compressed = [] \<longrightarrow>
      decompress_html E compressed enc s = (Inr compressed, s)) \<and>
   (enc \<noteq> ''plain'' \<and> enc \<noteq> ''gzip+base64'' \<and> compressed \<noteq> [] \<longrightarrow>
      fst (decompress_html E compressed enc s) = Inl (Exn ValueError (''Unknown encoding: '' @ enc))) \<and>
   (enc = ''gzip+base64'' \<and> compressed \<noteq> [] \<and> b64decode E compressed = Inl e \<longrightarrow>
      fst (decompress_html E compressed enc s) =
        Inl (Exn ValueError (''Failed to decompress HTML: '' @ exn_str e))) \<and>
   (enc = ''gzip+base64'' \<and> compressed \<noteq> [] \<and> b64decode E compressed = Inr bs \<and>
    gzip_read E bs = Inl e \<longrightarrow>
      fst (decompress_html E compressed enc s) =
        Inl (Exn ValueError (''Failed to decompress HTML: '' @ exn_str e))) \<and>
   (enc = ''gzip+base64'' \<and> compressed \<noteq> [] \<and> b64decode E compressed = Inr bs \<and>
    gzip_read E bs = Inr raw \<and> utf8_decode E raw = Inl e \<longrightarrow>
      fst (decompress_html E compressed enc s) =
        Inl (Exn ValueError (''Failed to decompress HTML: '' @ exn_str e))) \<and>
   (enc = ''gzip+base64'' \<and> compressed \<noteq> [] \<and> b64decode E compressed = Inr bs \<and>
    gzip_read E bs = Inr raw \<and> utf8_decode E raw = Inr html' \<longrightarrow>
      decompress_html E compressed enc s = (Inr html', s)) \<and>
   ((\<exists>t. fst (decompress_html E compressed enc s) = Inr t) \<or>
    (\<exists>msg. fst (decompress_html E compressed enc s) = Inl (Exn ValueError msg)))"
proof -
  have last: "(\<exists>t. fst (decompress_html E compressed enc s) = Inr t) \<or>
    (\<exists>msg. fst (decompress_html E compressed enc s) = Inl (Exn ValueError msg))"
  proof (cases "enc = ''plain'' \<or> compressed = []")
    case True
    then show ?thesis by (simp add: decompress_html_def)
  next
    case False
    show ?thesis
    proof (cases "enc = ''gzip+base64''")
      case True
      with False show ?thesis
        by (cases "decode_gzip_base64 E compressed") (simp_all add: decompress_html_def)
    next
      case False
      with \<open>\<not> (enc = ''plain'' \<or> compressed = [])\<close> show ?thesis
        by (simp add: decompress_html_def)
    qed
  qed
  have c1: "enc = ''plain'' \<or> compressed = [] \<longrightarrow>
      decompress_html E compressed enc s = (Inr compressed, s)"
    by (simp add: decompress_html_def)
  have c2: "enc \<noteq> ''plain'' \<and> enc \<noteq> ''gzip+base64'' \<and> compressed \<noteq> [] \<longrightarrow>
      fst (decompress_html E compressed enc s) = Inl (Exn ValueError (''Unknown encoding: '' @ enc))"
    by (simp add: decompress_html_def)
  have c3: "enc = ''gzip+base64'' \<and> compressed \<noteq> [] \<and> b64decode E compressed = Inl e \<longrightarrow>
      fst (decompress_html E compressed enc s) =
        Inl (Exn ValueError (''Failed to decompress HTML: '' @ exn_str e))"
    by (simp add: decompress_html_def decode_gzip_base64_def)
  have c4: "enc = ''gzip+base64'' \<and> compressed \<noteq> [] \<and> b64decode E compressed = Inr bs \<and>
    gzip_read E bs = Inl e \<longrightarrow>
      fst (decompress_html E compressed enc s) =
        Inl (Exn ValueError (''Failed to decompress HTML: '' @ exn_str e))"
    by (simp add: decompress_html_def decode_gzip_base64_def)
  have c5: "enc = ''gzip+base64'' \<and> compressed \<noteq> [] \<and> b64decode E compressed = Inr bs \<and>
    gzip_read E bs = Inr raw \<and> utf8_decode E raw = Inl e \<longrightarrow>
      fst (decompress_html E compressed enc s) =
        Inl (Exn ValueError (''Failed to decompress HTML: '' @ exn_str e))"
    by (simp add: decompress_html_def decode_gzip_base64_def)
  have c6: "enc = ''gzip+base64'' \<and> compressed \<noteq> [] \<and> b64decode E compressed = Inr bs \<and>
    gzip_read E bs = Inr raw \<and> utf8_decode E raw = Inr html' \<longrightarrow>
      decompress_html E compressed enc s = (Inr html', s)"
    by (simp add: decompress_html_def decode_gzip_base64_def)
  from c1 c2 c3 c4 c5 c6 last show ?thesis by (intro conjI)
qed

theorem decompress_html_cases_witness:
  "decompress_html (fake_env [] False False False) ''<p>hi</p>'' ''plain'' (fake_state 2 300) =
     (Inr ''<p>hi</p>'', fake_state 2 300) \<and>
   fst (decompress_html (fake_env [] False False False) ''abc'' ''brotli'' (fake_state 2 300)) =
     Inl (Exn ValueError ''Unknown encoding: brotli'') \<and>
   fst (decompress_html (fake_env [] False False False) ''abc'' ''gzip+base64'' (fake_state 2 300)) =
     Inl (Exn ValueError ''Failed to decompress HTML: Incorrect padding'') \<and>
   decompress_html (fake_env [] False False False)
       ''H4sIAAAAAAACA7MpsMvItNEvsAMAZdI3bQkAAAA='' ''gzip+base64'' (fake_state 2 300) =
     (Inr ''<p>hi</p>'', fake_state 2 300)"
proof -
  have d1: "b64decode (fake_env [] False False False) ''abc'' = Inl (Exn ValueError ''Incorrect padding'')"
    by (simp add: fake_env_def hi_blob_def)
  have d2: "b64decode (fake_env [] False False False) ''H4sIAAAAAAACA7MpsMvItNEvsAMAZdI3bQkAAAA='' = Inr hi_gzip"
    "gzip_read (fake_env [] False False False) hi_gzip = Inr ''<p>hi</p>''"
    "utf8_decode (fake_env [] False False False) ''<p>hi</p>'' = Inr ''<p>hi</p>''"
    by (simp_all add: fake_env_def hi_blob_def)
  note T = decompress_html_cases [where E = "fake_env [] False False False" and s = "fake_state 2 300"]
  from T [where enc = "''plain''" and compressed = "''<p>hi</p>''", THEN conjunct1]
    T [where enc = "''brotli''" and compressed = "''abc''", THEN conjunct2, THEN conjunct1]
    T [where enc = "''gzip+base64''" and compressed = "''abc''" and e = "Exn ValueError ''Incorrect padding''",
       THEN conjunct2, THEN conjunct2, THEN conjunct1]
    T [where enc = "''gzip+base64''" and compressed = "''H4sIAAAAAAACA7MpsMvItNEvsAMAZdI3bQkAAAA=''"
       and bs = hi_gzip and raw = "''<p>hi</p>''" and html' = "''<p>hi</p>''",
       THEN conjunct2, THEN conjunct2, THEN conjunct2, THEN conjunct2, THEN conjunct2, THEN conjunct1]
    d1 d2
  show ?thesis by simp
qed

section \<open>The pipeline\<close>

lemma process_unfold:
  assumes "0 < semaphore s" and "time_time E (world s) = (t0, w0)"
    and "process_try E job t0
           (logger INFO (''Processing job '' @ str_int (job_id job))
              (s\<lparr>semaphore := semaphore s - 1, world := w0\<rparr>)) = (res, s1)"
    and "time_time E (world s1) = (t1, w1)"
  shows "process E job s = Some
     (case res of
        Inr r \<Rightarrow> (Inr r, s1\<lparr>semaphore := semaphore s1 + 1\<rparr>)
      | Inl e \<Rightarrow>
          (Inr \<lparr>r_job_id = job_id job, r_collection_id = collection_id job, r_url = url job,
                success = False, error_message = Some (exn_str e), text_length = 0,
                processing_time_ms = py_int ((t1 - t0) * 1000)\<rparr>,
           (logger ERROR (''Failed to process job '' @ str_int (job_id job) @ '': '' @ exn_str e)
              (s1\<lparr>world := w1, jobs_failed := jobs_failed s1 + 1\<rparr>))
             \<lparr>semaphore := semaphore s1 + 1\<rparr>))"
  using assms
  by (cases res) (simp_all add: process_def process_internal_def logger_def del: append.simps)

text \<open>
  Claim C6. For a job whose content has empty \<^verbatim>\<open>text\<close> and empty \<^verbatim>\<open>html\<close>, with a free
  semaphore slot, \<^verbatim>\<open>process\<close> returns a result with \<^verbatim>\<open>success = False\<close> whose message is that
  of the ValueError \<^verbatim>\<open>_extract_text\<close> raises for a job with no content to extract. The pool
  is as before, the world has seen two clock reads and nothing else, and the only log
  records are the pipeline's own two: \<^verbatim>\<open>get\<close> was not called.
\<close>

theorem empty_content_fails_fast:
  assumes "content job = Some c" and "page_text c = []" and "html c = []"
    and "0 < semaphore s"
  shows "\<exists>r s'. process E job s = Some (Inr r, s') \<and>
           success r = False \<and>
           error_message r = Some ''Job has neither text nor HTML content'' \<and>
           instances s' = instances s \<and>
           world s' = snd (time_time E (snd (time_time E (world s)))) \<and>
           logs s' = logs s @
             [(INFO, ''Processing job '' @ str_int (job_id job)),
              (ERROR, ''Failed to process job '' @ str_int (job_id job) @
                        '': Job has neither text nor HTML content'')] \<and>
           jobs_failed s' = jobs_failed s + 1 \<and> jobs_processed s' = jobs_processed s \<and>
           semaphore s' = semaphore s"
proof -
  obtain t0 w0 where c0: "time_time E (world s) = (t0, w0)" using prod.exhaust by blast
  obtain t1 w1 where c1: "time_time E w0 = (t1, w1)" using prod.exhaust by blast
  define s0 where "s0 = logger INFO (''Processing job '' @ str_int (job_id job))
              (s\<lparr>semaphore := semaphore s - 1, world := w0\<rparr>)"
  have ex: "extract_text E job s0 = (Inl (Exn ValueError ''Job has neither text nor HTML content''), s0)"
    using assms(1-3) by (simp add: extract_text_def)
  have pt: "process_try E job t0 s0 = (Inl (Exn ValueError ''Job has neither text nor HTML content''), s0)"
    by (simp add: process_try_def ex)
  have w: "world s0 = w0" by (simp add: s0_def)
  from process_unfold [OF assms(4) c0 pt [unfolded s0_def] c1 [folded w, unfolded s0_def]]
  show ?thesis
    using c0 c1 by (simp add: logger_def)
qed

lemma extract_text_frame:
  assumes "extract_text E job s = (r, s')"
  shows "instances s' = instances s" "max_instances s' = max_instances s"
    "semaphore s' = semaphore s" "jobs_processed s' = jobs_processed s"
    "jobs_failed s' = jobs_failed s" "world s' = world s"
  using assms
  by (auto simp: extract_text_def decompress_html_def clean_html_to_text_def
           split: option.splits if_splits prod.splits sum.splits)

lemma process_try_cases:
  assumes "process_try E job t0 s0 = (res, s')"
  obtains
    (extraction) e where "extract_text E job s0 = (Inl e, s')" "res = Inl e"
  | (no_text) tx where "extract_text E job s0 = (Inr tx, s')" "tx = []"
      "res = Inl (Exn ValueError ''No text content extracted from document'')"
  | (pool) tx s1 e where "extract_text E job s0 = (Inr tx, s1)" "tx \<noteq> []"
      "get E (collection_id job) s1 = (Inl e, s')" "res = Inl e"
  | (insertion) tx s1 h s2 e w1 where "extract_text E job s0 = (Inr tx, s1)" "tx \<noteq> []"
      "get E (collection_id job) s1 = (Inr h, s2)"
      "ainsert E h (url job) tx (world s2) = (Some e, w1)" "res = Inl e"
      "s' = (logger DEBUG (''Inserting document into LightRAG: '' @ url job) s2)\<lparr>world := w1\<rparr>"
  | (ok) tx s1 h s2 w1 t w2 where "extract_text E job s0 = (Inr tx, s1)" "tx \<noteq> []"
      "get E (collection_id job) s1 = (Inr h, s2)"
      "ainsert E h (url job) tx (world s2) = (None, w1)" "time_time E w1 = (t, w2)"
      "res = Inr \<lparr>r_job_id = job_id job, r_collection_id = collection_id job,
                   r_url = url job, success = True, error_message = None,
                   text_length = int (length tx),
                   processing_time_ms = py_int ((t - t0) * 1000)\<rparr>"
      "s' = logger INFO (''Successfully processed job '' @ str_int (job_id job))
              ((logger DEBUG (''Inserting document into LightRAG: '' @ url job) s2)
                 \<lparr>world := w2, jobs_processed := jobs_processed s2 + 1\<rparr>)"
proof -
  obtain r1 s1 where ex: "extract_text E job s0 = (r1, s1)" using prod.exhaust by blast
  show ?thesis
  proof (cases r1)
    case (Inl e)
    with assms ex have "res = Inl e" "s' = s1" by (simp_all add: process_try_def)
    with ex Inl show ?thesis by (auto intro: extraction)
  next
    case (Inr tx)
    show ?thesis
    proof (cases "tx = []")
      case True
      with assms ex Inr have "res = Inl (Exn ValueError ''No text content extracted from document'')" "s' = s1"
        by (simp_all add: process_try_def)
      with ex Inr True show ?thesis by (auto intro: no_text)
    next
      case False
      obtain r2 s2 where g: "get E (collection_id job) s1 = (r2, s2)" using prod.exhaust by blast
      show ?thesis
      proof (cases r2)
        case (Inl e)
        with assms ex Inr False g have "res = Inl e" "s' = s2" by (simp_all add: process_try_def)
        with ex Inr False g Inl show ?thesis by (auto intro: pool)
      next
        case h: (Inr h)
        obtain r3 w1 where a: "ainsert E h (url job) tx (world s2) = (r3, w1)"
          using prod.exhaust by blast
        show ?thesis
        proof (cases r3)
          case (Some e)
          with assms ex Inr False g h a
          have "res = Inl e" "s' = (logger DEBUG (''Inserting document into LightRAG: '' @ url job) s2)\<lparr>world := w1\<rparr>"
            by (simp_all add: process_try_def Let_def del: append.simps)
          with ex Inr False g h a Some show ?thesis by (auto intro: insertion)
        next
          case None
          obtain t w2 where c: "time_time E w1 = (t, w2)" using prod.exhaust by blast
          from assms ex Inr False g h a None c
          have "res = Inr \<lparr>r_job_id = job_id job, r_collection_id = collection_id job,
                   r_url = url job, success = True, error_message = None,
                   text_length = int (length tx),
                   processing_time_ms = py_int ((t - t0) * 1000)\<rparr>"
            "s' = logger INFO (''Successfully processed job '' @ str_int (job_id job))
              ((logger DEBUG (''Inserting document into LightRAG: '' @ url job) s2)
                 \<lparr>world := w2, jobs_processed := jobs_processed s2 + 1\<rparr>)"
            by (simp_all add: process_try_def Let_def del: append.simps)
          with ex Inr False g h a None c show ?thesis by (auto intro: ok)
        qed
      qed
    qed
  qed
qed

lemma process_try_frame:
  assumes "process_try E job t0 s0 = (res, s')"
  shows "semaphore s' = semaphore s0" "max_instances s' = max_instances s0"
    "jobs_failed s' = jobs_failed s0"
    "jobs_processed s' = jobs_processed s0 + (case res of Inl e \<Rightarrow> 0 | Inr r \<Rightarrow> 1)"
proof -
  have "semaphore s' = semaphore s0 \<and> max_instances s' = max_instances s0 \<and>
    jobs_failed s' = jobs_failed s0 \<and>
    jobs_processed s' = jobs_processed s0 + (case res of Inl e \<Rightarrow> 0 | Inr r \<Rightarrow> 1)"
    using assms
  proof (cases rule: process_try_cases)
    case (extraction e)
    with extract_text_frame [OF extraction(1)] show ?thesis by simp
  next
    case no_text
    with extract_text_frame [OF no_text(1)] show ?thesis by simp
  next
    case (pool tx s1 e)
    with extract_text_frame [OF pool(1)] get_frame [OF pool(3)] show ?thesis by simp
  next
    case (insertion tx s1 h s2 e w1)
    with extract_text_frame [OF insertion(1)] get_frame [OF insertion(3)] show ?thesis by simp
  next
    case (ok tx s1 h s2 w1 t w2)
    with extract_text_frame [OF ok(1)] get_frame [OF ok(3)] show ?thesis by simp
  qed
  then show "semaphore s' = semaphore s0" "max_instances s' = max_instances s0"
    "jobs_failed s' = jobs_failed s0"
    "jobs_processed s' = jobs_processed s0 + (case res of Inl e \<Rightarrow> 0 | Inr r \<Rightarrow> 1)"
    by simp_all
qed

lemma process_try_failures:
  "fst (extract_text E job s0) = Inl e \<Longrightarrow> fst (process_try E job t0 s0) = Inl e"
  "fst (extract_text E job s0) = Inr [] \<Longrightarrow>
     fst (process_try E job t0 s0) = Inl (Exn ValueError ''No text content extracted from document'')"
  "extract_text E job s0 = (Inr tx, s1) \<Longrightarrow> tx \<noteq> [] \<Longrightarrow>
     fst (get E (collection_id job) s1) = Inl e \<Longrightarrow> fst (process_try E job t0 s0) = Inl e"
  "extract_text E job s0 = (Inr tx, s1) \<Longrightarrow> tx \<noteq> [] \<Longrightarrow>
     get E (collection_id job) s1 = (Inr h, s2) \<Longrightarrow>
     fst (ainsert E h (url job) tx (world s2)) = Some e \<Longrightarrow> fst (process_try E job t0 s0) = Inl e"
proof -
  show "fst (extract_text E job s0) = Inl e \<Longrightarrow> fst (process_try E job t0 s0) = Inl e"
    by (cases "extract_text E job s0") (simp add: process_try_def)
  show "fst (extract_text E job s0) = Inr [] \<Longrightarrow>
     fst (process_try E job t0 s0) = Inl (Exn ValueError ''No text content extracted from document'')"
    by (cases "extract_text E job s0") (simp add: process_try_def)
  show "extract_text E job s0 = (Inr tx, s1) \<Longrightarrow> tx \<noteq> [] \<Longrightarrow>
     fst (get E (collection_id job) s1) = Inl e \<Longrightarrow> fst (process_try E job t0 s0) = Inl e"
    by (cases "get E (collection_id job) s1") (simp add: process_try_def)
  show "extract_text E job s0 = (Inr tx, s1) \<Longrightarrow> tx \<noteq> [] \<Longrightarrow>
     get E (collection_id job) s1 = (Inr h, s2) \<Longrightarrow>
     fst (ainsert E h (url job) tx (world s2)) = Some e \<Longrightarrow> fst (process_try E job t0 s0) = Inl e"
    by (cases "ainsert E h (url job) tx (world s2)")
       (simp add: process_try_def Let_def logger_def del: append.simps)
qed

text \<open>
  Claim C7. With a free semaphore slot, \<^verbatim>\<open>process\<close> returns a \<^verbatim>\<open>ProcessingResult\<close> for
  the job and gives the slot back. If the \<^verbatim>\<open>try\<close> block raised \<open>e\<close> the result has
  \<^verbatim>\<open>success = False\<close> and \<^verbatim>\<open>error_message = str(e)\<close>; otherwise it is the block's own
  successful result. The block raises when extraction raises, when the extracted text is
  empty, when \<^verbatim>\<open>get\<close> raises and when \<^verbatim>\<open>ainsert\<close> raises.
\<close>

theorem process_never_raises:
  assumes "0 < semaphore s"
  shows "(\<exists>r s'. process E job s = Some (Inr r, s') \<and>
           semaphore s' = semaphore s \<and>
           r_job_id r = job_id job \<and> r_collection_id r = collection_id job \<and> r_url r = url job \<and>
           (case fst (process_try E job (fst (time_time E (world s)))
                       (logger INFO (''Processing job '' @ str_int (job_id job))
                          (s\<lparr>semaphore := semaphore s - 1, world := snd (time_time E (world s))\<rparr>))) of
              Inl e \<Rightarrow> success r = False \<and> error_message r = Some (exn_str e) \<and>
                       jobs_failed s' = jobs_failed s + 1
            | Inr r' \<Rightarrow> r = r' \<and> success r = True \<and> error_message r = None \<and>
                        jobs_failed s' = jobs_failed s)) \<and>
         (fst (extract_text E job s0) = Inl e \<longrightarrow> fst (process_try E job t0 s0) = Inl e) \<and>
         (fst (extract_text E job s0) = Inr [] \<longrightarrow>
            fst (process_try E job t0 s0) = Inl (Exn ValueError ''No text content extracted from document'')) \<and>
         (extract_text E job s0 = (Inr tx, s1) \<and> tx \<noteq> [] \<and>
          fst (get E (collection_id job) s1) = Inl e \<longrightarrow> fst (process_try E job t0 s0) = Inl e) \<and>
         (extract_text E job s0 = (Inr tx, s1) \<and> tx \<noteq> [] \<and>
          get E (collection_id job) s1 = (Inr h, s2) \<and>
          fst (ainsert E h (url job) tx (world s2)) = Some e \<longrightarrow> fst (process_try E job t0 s0) = Inl e)"
proof -
  obtain c0 w0 where c0: "time_time E (world s) = (c0, w0)" using prod.exhaust by blast
  define st where "st = logger INFO (''Processing job '' @ str_int (job_id job))
              (s\<lparr>semaphore := semaphore s - 1, world := w0\<rparr>)"
  obtain res s1' where pt: "process_try E job c0 st = (res, s1')" using prod.exhaust by blast
  obtain c1 w1 where c1: "time_time E (world s1') = (c1, w1)" using prod.exhaust by blast
  note fr = process_try_frame [OF pt]
  have sem: "semaphore st = semaphore s - 1" and jf: "jobs_failed st = jobs_failed s"
    by (simp_all add: st_def)
  note U = process_unfold [OF assms c0 pt [unfolded st_def] c1]
  have first: "\<exists>r s'. process E job s = Some (Inr r, s') \<and>
           semaphore s' = semaphore s \<and>
           r_job_id r = job_id job \<and> r_collection_id r = collection_id job \<and> r_url r = url job \<and>
           (case fst (process_try E job (fst (time_time E (world s)))
                       (logger INFO (''Processing job '' @ str_int (job_id job))
                          (s\<lparr>semaphore := semaphore s - 1, world := snd (time_time E (world s))\<rparr>))) of
              Inl e \<Rightarrow> success r = False \<and> error_message r = Some (exn_str e) \<and>
                       jobs_failed s' = jobs_failed s + 1
            | Inr r' \<Rightarrow> r = r' \<and> success r = True \<and> error_message r = None \<and>
                        jobs_failed s' = jobs_failed s)"
  proof (cases res)
    case (Inl e)
    with U fr sem jf c0 pt [unfolded st_def] show ?thesis by (simp del: append.simps)
  next
    case (Inr r)
    from pt Inr have "success r = True \<and> error_message r = None \<and> r_job_id r = job_id job \<and>
        r_collection_id r = collection_id job \<and> r_url r = url job"
      by (cases rule: process_try_cases) auto
    with Inr U fr sem jf c0 pt [unfolded st_def] show ?thesis by (simp del: append.simps)
  qed
  have c2: "fst (extract_text E job s0) = Inl e \<longrightarrow> fst (process_try E job t0 s0) = Inl e"
    by (intro impI, (elim conjE)?, rule process_try_failures(1))
  have c3: "fst (extract_text E job s0) = Inr [] \<longrightarrow>
            fst (process_try E job t0 s0) = Inl (Exn ValueError ''No text content extracted from document'')"
    by (intro impI, (elim conjE)?, rule process_try_failures(2))
  have c4: "extract_text E job s0 = (Inr tx, s1) \<and> tx \<noteq> [] \<and>
          fst (get E (collection_id job) s1) = Inl e \<longrightarrow> fst (process_try E job t0 s0) = Inl e"
    by (intro impI, (elim conjE)?, rule process_try_failures(3))
  have c5: "extract_text E job s0 = (Inr tx, s1) \<and> tx \<noteq> [] \<and>
          get E (collection_id job) s1 = (Inr h, s2) \<and>
          fst (ainsert E h (url job) tx (world s2)) = Some e \<longrightarrow> fst (process_try E job t0 s0) = Inl e"
    by (intro impI, (elim conjE)?, rule process_try_failures(4))
  from first c2 c3 c4 c5 show ?thesis by (intro conjI)
qed

text \<open>The definitions a concrete run of the pipeline unfolds.\<close>

lemmas eval_pipeline = process_try_def extract_text_def decompress_html_def clean_html_to_text_def
  decode_gzip_base64_def fake_job_def fake_content_def str_int_def str_nat.simps py_int_def

theorem empty_content_fails_fast_witness:
  "\<exists>r s'. process (fake_env [] False False False)
              (fake_job ''t1'' ''https://x/doc'' (Some (fake_content [] [] ''gzip+base64'')))
              (fake_state 2 300) = Some (Inr r, s') \<and>
           success r = False \<and>
           error_message r = Some ''Job has neither text nor HTML content'' \<and>
           instances s' = [] \<and> world s' = 2 \<and>
           logs s' = [(INFO, ''Processing job 1''),
                      (ERROR, ''Failed to process job 1: Job has neither text nor HTML content'')] \<and>
           jobs_failed s' = 1"
proof -
  have h: "content (fake_job ''t1'' ''https://x/doc'' (Some (fake_content [] [] ''gzip+base64''))) =
             Some (fake_content [] [] ''gzip+base64'')"
    "page_text (fake_content [] [] ''gzip+base64'') = []" "html (fake_content [] [] ''gzip+base64'') = []"
    "0 < semaphore (fake_state 2 300)"
    by (simp_all add: fake_job_def fake_content_def fake_state_def)
  from empty_content_fails_fast [OF h, of "fake_env [] False False False"]
  obtain r s' where "process (fake_env [] False False False)
              (fake_job ''t1'' ''https://x/doc'' (Some (fake_content [] [] ''gzip+base64'')))
              (fake_state 2 300) = Some (Inr r, s')"
    and "success r = False" and "error_message r = Some ''Job has neither text nor HTML content''"
    and "instances s' = instances (fake_state 2 300)"
    and "world s' = snd (time_time (fake_env [] False False False)
                      (snd (time_time (fake_env [] False False False) (world (fake_state 2 300)))))"
    and "logs s' = logs (fake_state 2 300) @
             [(INFO, ''Processing job '' @
                 str_int (job_id (fake_job ''t1'' ''https://x/doc'' (Some (fake_content [] [] ''gzip+base64''))))),
              (ERROR, ''Failed to process job '' @
                 str_int (job_id (fake_job ''t1'' ''https://x/doc'' (Some (fake_content [] [] ''gzip+base64'')))) @
                        '': Job has neither text nor HTML content'')]"
    and "jobs_failed s' = jobs_failed (fake_state 2 300) + 1"
    by blast
  then show ?thesis
    by (intro exI [of _ r] exI [of _ s'])
       (simp add: fake_env_def fake_state_def fake_job_def str_int_def str_nat.simps)
qed

theorem process_never_raises_witness:
  "(\<exists>r s'. process (fake_env [] False False True)
              (fake_job ''t1'' ''https://x/doc'' (Some (fake_content [] ''hello world'' ''plain'')))
              (fake_state 2 300) = Some (Inr r, s') \<and>
           success r = False \<and> error_message r = Some ''insert failed'' \<and>
           semaphore s' = 5 \<and> jobs_failed s' = 1) \<and>
   (\<exists>r s'. process (fake_env [] False False False)
              (fake_job ''t1'' ''https://x/doc'' (Some (fake_content [] ''hello world'' ''plain'')))
              (fake_state 2 300) = Some (Inr r, s') \<and>
           success r = True \<and> text_length r = 11 \<and> map fst (instances s') = [''t1''])"
proof -
  have h: "0 < semaphore (fake_state 2 300)" by (simp add: fake_state_def)
  define job where "job = fake_job ''t1'' ''https://x/doc'' (Some (fake_content [] ''hello world'' ''plain''))"
  have p1: "fst (process_try (fake_env [] False False True) job
              (fst (time_time (fake_env [] False False True) (world (fake_state 2 300))))
              (logger INFO (''Processing job '' @ str_int (job_id job))
                 ((fake_state 2 300)\<lparr>semaphore := semaphore (fake_state 2 300) - 1,
                    world := snd (time_time (fake_env [] False False True) (world (fake_state 2 300)))\<rparr>)))
            = Inl (Exn OtherError ''insert failed'')"
    by (simp add: job_def eval_pipeline eval_defs)
  have p2: "fst (process_try (fake_env [] False False False) job
              (fst (time_time (fake_env [] False False False) (world (fake_state 2 300))))
              (logger INFO (''Processing job '' @ str_int (job_id job))
                 ((fake_state 2 300)\<lparr>semaphore := semaphore (fake_state 2 300) - 1,
                    world := snd (time_time (fake_env [] False False False) (world (fake_state 2 300)))\<rparr>)))
            = Inr \<lparr>r_job_id = 1, r_collection_id = ''t1'', r_url = ''https://x/doc'', success = True,
                   error_message = None, text_length = 11, processing_time_ms = 3000\<rparr>"
    by (simp add: job_def eval_pipeline eval_defs)
  have i2: "map fst (instances (snd (the (process (fake_env [] False False False) job (fake_state 2 300))))) = [''t1'']"
    by (simp add: job_def process_def process_internal_def eval_pipeline eval_defs)
  from process_never_raises [OF h, of "fake_env [] False False True" job, THEN conjunct1] p1
  have a: "\<exists>r s'. process (fake_env [] False False True) job (fake_state 2 300) = Some (Inr r, s') \<and>
           success r = False \<and> error_message r = Some ''insert failed'' \<and>
           semaphore s' = 5 \<and> jobs_failed s' = 1"
    by (auto simp: fake_state_def)
  from process_never_raises [OF h, of "fake_env [] False False False" job, THEN conjunct1] p2 i2
  have b: "\<exists>r s'. process (fake_env [] False False False) job (fake_state 2 300) = Some (Inr r, s') \<and>
           success r = True \<and> text_length r = 11 \<and> map fst (instances s') = [''t1'']"
    by auto
  from a b show ?thesis unfolding job_def by simp
qed

section \<open>The consumption loop\<close>

lemma phase_run_append:
  "phase_run ph (xs @ ys) = (case phase_run ph xs of None \<Rightarrow> None | Some p \<Rightarrow> phase_run p ys)"
  by (induction xs arbitrary: ph) (auto split: option.splits)

lemma phase_run_take:
  "phase_run ph tr = Some ph' \<Longrightarrow> \<exists>p. phase_run ph (take n tr) = Some p"
proof -
  assume a: "phase_run ph tr = Some ph'"
  have "phase_run ph (take n tr @ drop n tr) = Some ph'"
    using a by (simp only: append_take_drop_id)
  then show ?thesis unfolding phase_run_append by (cases "phase_run ph (take n tr)") simp_all
qed

lemma phase_step_busy:
  "phase_step ph e = Some ph' \<Longrightarrow> busy ph' = busy ph + in_flight [e]"
  by (cases e; cases ph) (auto simp: busy_def split: if_splits)

lemma in_flight_Cons: "in_flight (e # es) = in_flight [e] + in_flight es"
  by (cases e) auto

lemma phase_run_busy:
  "phase_run ph tr = Some ph' \<Longrightarrow> busy ph' = busy ph + in_flight tr"
proof (induction tr arbitrary: ph)
  case Nil
  then show ?case by simp
next
  case (Cons e es)
  then obtain p where p: "phase_step ph e = Some p" "phase_run p es = Some ph'"
    by (auto split: option.splits)
  from phase_step_busy [OF p(1)] Cons.IH [OF p(2)] show ?case
    using in_flight_Cons [of e es] by simp
qed

lemma phase_run_commit_order:
  "phase_run ph tr = Some ph' \<Longrightarrow> subseq (remdups_adj (commits tr)) (current ph @ reads tr)"
proof (induction tr arbitrary: ph)
  case Nil
  then show ?case by simp
next
  case (Cons e es)
  then obtain p where p: "phase_step ph e = Some p" "phase_run p es = Some ph'"
    by (auto split: option.splits)
  note IH = Cons.IH [OF p(2)]
  show ?case
  proof (cases e)
    case (Received k)
    with p(1) have "p = Got k" by (cases ph) auto
    with IH have "subseq (remdups_adj (commits es)) (current ph @ k # reads es)"
      by (auto intro: list_emb_append2)
    with Received show ?thesis by simp
  next
    case (Dispatched k)
    with p(1) have "ph = Got k" "p = InFlight k" by (auto split: if_splits)
    with IH Dispatched show ?thesis by simp
  next
    case (Finished k)
    with p(1) have "ph = InFlight k" "p = Done k" by (auto split: if_splits)
    with IH Finished show ?thesis by simp
  next
    case (CommitCalled k)
    with p(1) have ph: "current ph = [k]" and pp: "p = Decided k" by (auto split: if_splits)
    from IH pp have s: "subseq (remdups_adj (commits es)) (k # reads es)" by simp
    show ?thesis
    proof (cases "commits es")
      case Nil
      with CommitCalled ph show ?thesis by simp
    next
      case (Cons c cs)
      show ?thesis
      proof (cases "c = k")
        case True
        with Cons s CommitCalled ph show ?thesis by simp
      next
        case False
        from Cons obtain ds where ds: "remdups_adj (commits es) = c # ds"
          by (metis list.exhaust list.sel(1) hd_remdups_adj list.distinct(1) remdups_adj_Nil_iff)
        with s False have "subseq (remdups_adj (commits es)) (reads es)" by simp
        with Cons False CommitCalled ph show ?thesis by simp
      qed
    qed
  qed
qed

lemma reads_append: "reads (xs @ ys) = reads xs @ reads ys"
  by (induction xs rule: reads.induct) simp_all

lemma emit_simps [simp]:
  "trace (emit ev s) = trace s @ [ev]" "running (emit ev s) = running s"
  "tasks (emit ev s) = tasks s" "started (emit ev s) = started s" "app (emit ev s) = app s"
  by (simp_all add: emit_def)

lemma clog_simps [simp]:
  "trace (clog lv msg s) = trace s" "running (clog lv msg s) = running s"
  "tasks (clog lv msg s) = tasks s" "started (clog lv msg s) = started s" "app (clog lv msg s) = app s"
  by (simp_all add: clog_def)

lemma on_exception_trace:
  assumes "on_exception C m e s = (r, s')"
  shows "trace s' = trace s @ (if exn_class e = JSONDecodeError then [CommitCalled (key m)] else [])"
    and "running s' = running s" and "tasks s' = tasks s"
  using assms by (auto simp: on_exception_def Let_def split: if_splits prod.splits)

lemma handle_message_trace:
  assumes "handle_message C m s = Some (r, s')"
  shows "\<exists>blk. trace s' = trace s @ blk \<and>
           blk \<in> {[], [CommitCalled (key m)],
                  [Dispatched (key m), Finished (key m)],
                  [Dispatched (key m), Finished (key m), CommitCalled (key m)],
                  [Dispatched (key m), Finished (key m), CommitCalled (key m), CommitCalled (key m)]}"
    and "running s' = running s" and "tasks s' = tasks s"
proof -
  have "(\<exists>blk. trace s' = trace s @ blk \<and>
           blk \<in> {[], [CommitCalled (key m)],
                  [Dispatched (key m), Finished (key m)],
                  [Dispatched (key m), Finished (key m), CommitCalled (key m)],
                  [Dispatched (key m), Finished (key m), CommitCalled (key m), CommitCalled (key m)]}) \<and>
        running s' = running s \<and> tasks s' = tasks s"
  proof (cases "parse C (rec_value m)")
    case (Inl e)
    with assms have oe: "on_exception C m e s = (r, s')" by (simp add: handle_message_def)
    from on_exception_trace [OF oe] show ?thesis by auto
  next
    case (Inr job)
    define s1 where "s1 = emit (Dispatched (key m)) (clog INFO ''Received indexing job'' s)"
    have t1: "trace s1 = trace s @ [Dispatched (key m)]" "running s1 = running s" "tasks s1 = tasks s"
      by (simp_all add: s1_def)
    from assms Inr obtain hr a where h: "message_handler C job (app s1) = Some (hr, a)"
      by (cases "message_handler C job (app s1)") (auto simp: handle_message_def Let_def s1_def)
    show ?thesis
    proof (cases hr)
      case (Inl e)
      define s2 where "s2 = emit (Finished (key m)) (s1\<lparr>app := a\<rparr>)"
      have t2: "trace s2 = trace s @ [Dispatched (key m), Finished (key m)]"
        "running s2 = running s" "tasks s2 = tasks s"
        by (simp_all add: s2_def t1)
      from assms Inr h Inl have oe: "on_exception C m e s2 = (r, s')"
        by (simp add: handle_message_def Let_def s1_def s2_def)
      from on_exception_trace [OF oe] t2 show ?thesis by auto
    next
      case (Inr res)
      define s2 where "s2 = emit (CommitCalled (key m)) (emit (Finished (key m)) (s1\<lparr>app := a\<rparr>))"
      have t2: "trace s2 = trace s @ [Dispatched (key m), Finished (key m), CommitCalled (key m)]"
        "running s2 = running s" "tasks s2 = tasks s"
        by (simp_all add: s2_def t1)
      obtain cr a' where c: "commit C (app s2) = (cr, a')" using prod.exhaust by blast
      show ?thesis
      proof (cases cr)
        case None
        with assms \<open>parse C (rec_value m) = Inr job\<close> h Inr c
        have "s' = clog DEBUG ''Committed offset'' (s2\<lparr>app := a'\<rparr>)"
          by (simp add: handle_message_def Let_def s1_def s2_def)
        with t2 show ?thesis by simp
      next
        case (Some e)
        with assms \<open>parse C (rec_value m) = Inr job\<close> h Inr c
        have oe: "on_exception C m e (s2\<lparr>app := a'\<rparr>) = (r, s')"
          by (simp add: handle_message_def Let_def s1_def s2_def)
        from on_exception_trace [OF oe] t2 show ?thesis by auto
      qed
    qed
  qed
  then show "\<exists>blk. trace s' = trace s @ blk \<and>
           blk \<in> {[], [CommitCalled (key m)],
                  [Dispatched (key m), Finished (key m)],
                  [Dispatched (key m), Finished (key m), CommitCalled (key m)],
                  [Dispatched (key m), Finished (key m), CommitCalled (key m), CommitCalled (key m)]}"
    and "running s' = running s" and "tasks s' = tasks s"
    by simp_all
qed

lemma block_settles:
  assumes "blk \<in> {[], [CommitCalled k], [Dispatched k, Finished k],
                  [Dispatched k, Finished k, CommitCalled k],
                  [Dispatched k, Finished k, CommitCalled k, CommitCalled k]}"
  shows "\<exists>p. phase_run (Got k) blk = Some p \<and> settled p" and "reads blk = []"
  using assms by (auto simp: settled_def)

lemma consume_loop_trace:
  assumes "consume_loop C stream s = Some (r, s')"
    and "phase_run Idle (trace s) = Some ph" and "settled ph"
  shows "\<exists>ph'. phase_run Idle (trace s') = Some ph' \<and> settled ph'"
    and "prefix (reads (trace s')) (reads (trace s) @ map key (messages stream))"
    and "tasks s' = tasks s"
proof -
  have "(\<exists>ph'. phase_run Idle (trace s') = Some ph' \<and> settled ph') \<and>
        prefix (reads (trace s')) (reads (trace s) @ map key (messages stream)) \<and>
        tasks s' = tasks s"
    using assms
  proof (induction stream arbitrary: s ph)
    case Nil
    then show ?case by auto
  next
    case (Cons f rest)
    show ?case
    proof (cases f)
      case (FetchRaises e)
      with Cons.prems show ?thesis by auto
    next
      case StopCalled
      with Cons.prems have "consume_loop C rest (s\<lparr>running := False\<rparr>) = Some (r, s')" by simp
      from Cons.IH [OF this, of ph] Cons.prems(2,3) StopCalled show ?thesis by simp
    next
      case (Message m)
      define s0 where "s0 = emit (Received (key m)) s"
      have rs0: "reads (trace s0) = reads (trace s) @ [key m]"
        by (simp add: s0_def reads_append)
      have p0: "phase_run Idle (trace s0) = Some (Got (key m))"
        using Cons.prems(2,3) by (cases ph) (simp_all add: s0_def phase_run_append settled_def)
      show ?thesis
      proof (cases "running s0")
        case False
        with Cons.prems(1) Message have "s' = s0" by (simp add: s0_def Let_def)
        with p0 rs0 Message show ?thesis by (simp add: settled_def s0_def)
      next
        case True
        from Cons.prems(1) Message True obtain hr s1 where
          hm: "handle_message C m s0 = Some (hr, s1)"
          by (cases "handle_message C m s0") (auto simp: s0_def Let_def)
        from handle_message_trace [OF hm] obtain blk where
          blk: "trace s1 = trace s0 @ blk"
          "blk \<in> {[], [CommitCalled (key m)], [Dispatched (key m), Finished (key m)],
                  [Dispatched (key m), Finished (key m), CommitCalled (key m)],
                  [Dispatched (key m), Finished (key m), CommitCalled (key m), CommitCalled (key m)]}"
          and t1: "tasks s1 = tasks s0" by blast
        from block_settles [OF blk(2)] obtain p where
          p: "phase_run (Got (key m)) blk = Some p" "settled p" and rb: "reads blk = []" by blast
        have p1: "phase_run Idle (trace s1) = Some p"
          using p0 p(1) by (simp add: blk(1) phase_run_append)
        have rs1: "reads (trace s1) = reads (trace s) @ [key m]"
          using rs0 rb by (simp add: blk(1) reads_append)
        show ?thesis
        proof (cases hr)
          case (Some e)
          with Cons.prems(1) Message True hm have "s' = s1" by (simp add: s0_def Let_def)
          with p1 p(2) rs1 t1 Message show ?thesis by (auto simp: s0_def)
        next
          case None
          with Cons.prems(1) Message True hm have "consume_loop C rest s1 = Some (r, s')"
            by (simp add: s0_def Let_def)
          from Cons.IH [OF this p1 p(2)] rs1 t1 Message show ?thesis by (simp add: s0_def)
        qed
      qed
    qed
  qed
  then show "\<exists>ph'. phase_run Idle (trace s') = Some ph' \<and> settled ph'"
    and "prefix (reads (trace s')) (reads (trace s) @ map key (messages stream))"
    and "tasks s' = tasks s" by simp_all
qed

lemma replay_append:
  "replay C (xs @ ys) st = (case replay C xs st of None \<Rightarrow> None | Some st' \<Rightarrow> replay C ys st')"
  by (induction xs arbitrary: st) (auto split: option.splits)

lemma replay_step_pending:
  "replay_step C e (cur, seen, ms, a) = Some (cur', seen', ms', a') \<Longrightarrow>
   ms' = drop (length (reads [e])) ms"
  by (cases e) (auto split: list.splits option.splits if_splits sum.splits)

lemma reads_Cons: "reads (e # es) = reads [e] @ reads es"
  by (cases e) simp_all

lemma replay_pending:
  "replay C tr (cur, seen, ms, a) = Some (cur', seen', ms', a') \<Longrightarrow>
   ms' = drop (length (reads tr)) ms"
proof (induction tr arbitrary: cur seen ms a)
  case Nil
  then show ?case by simp
next
  case (Cons e es)
  from Cons.prems obtain c1 b1 m1 a1 where
    st: "replay_step C e (cur, seen, ms, a) = Some (c1, b1, m1, a1)"
    and r: "replay C es (c1, b1, m1, a1) = Some (cur', seen', ms', a')"
    by (cases "replay_step C e (cur, seen, ms, a)") auto
  from replay_step_pending [OF st] Cons.IH [OF r]
  show ?case by (simp add: reads_Cons [of e es] add.commute)
qed

lemma on_exception_replay:
  assumes "on_exception C m e s = (r, s')" and "dealt C (Some m) seen"
  shows "\<exists>blk. trace s' = trace s @ blk \<and>
           replay C blk (Some m, seen, ms, app s) = Some (Some m, seen, ms, app s')"
proof (cases "exn_class e = JSONDecodeError")
  case True
  obtain cr a where c: "commit C (app s) = (cr, a)" using prod.exhaust by blast
  with assms(1) True have "trace s' = trace s @ [CommitCalled (key m)]" "app s' = a"
    by (auto simp: on_exception_def Let_def)
  with c assms(2) show ?thesis by simp
next
  case False
  with assms(1) have "trace s' = trace s @ []" "app s' = app s"
    by (auto simp: on_exception_def)
  then show ?thesis by (intro exI [of _ "[]"]) simp
qed

lemma handle_message_replay:
  assumes "handle_message C m s = Some (r, s')"
  shows "\<exists>blk seen. trace s' = trace s @ blk \<and> dealt C (Some m) seen \<and>
           replay C blk (Some m, False, ms, app s) = Some (Some m, seen, ms, app s')"
proof (cases "parse C (rec_value m)")
  case (Inl e)
  with assms have oe: "on_exception C m e s = (r, s')" by (simp add: handle_message_def)
  have d: "dealt C (Some m) False" using Inl by (simp add: dealt_def)
  from on_exception_replay [OF oe d, of ms] d show ?thesis by blast
next
  case (Inr job)
  define s1 where "s1 = emit (Dispatched (key m)) (clog INFO ''Received indexing job'' s)"
  have t1: "trace s1 = trace s @ [Dispatched (key m)]" "app s1 = app s"
    by (simp_all add: s1_def)
  have d: "dealt C (Some m) True" by (simp add: dealt_def)
  from assms Inr obtain hr a where h: "message_handler C job (app s) = Some (hr, a)"
    by (cases "message_handler C job (app s)") (auto simp: handle_message_def Let_def)
  have r1: "replay C [Dispatched (key m)] (Some m, False, ms, app s) = Some (Some m, True, ms, a)"
    using Inr h by simp
  show ?thesis
  proof (cases hr)
    case (Inl e)
    define s2 where "s2 = emit (Finished (key m)) (s1\<lparr>app := a\<rparr>)"
    have t2: "trace s2 = trace s @ [Dispatched (key m), Finished (key m)]" "app s2 = a"
      by (simp_all add: s2_def t1)
    from assms Inr h Inl have oe: "on_exception C m e s2 = (r, s')"
      by (simp add: handle_message_def Let_def s1_def s2_def)
    from on_exception_replay [OF oe d, of ms] obtain blk where
      blk: "trace s' = trace s2 @ blk"
      "replay C blk (Some m, True, ms, app s2) = Some (Some m, True, ms, app s')" by blast
    have "replay C ([Dispatched (key m), Finished (key m)] @ blk) (Some m, False, ms, app s) =
          Some (Some m, True, ms, app s')"
      unfolding replay_append using Inr h blk(2) t2(2) by simp
    moreover have "trace s' = trace s @ ([Dispatched (key m), Finished (key m)] @ blk)"
      using blk(1) t2(1) by simp
    ultimately show ?thesis using d by blast
  next
    case (Inr res)
    define s2 where "s2 = emit (CommitCalled (key m)) (emit (Finished (key m)) (s1\<lparr>app := a\<rparr>))"
    have t2: "trace s2 = trace s @ [Dispatched (key m), Finished (key m), CommitCalled (key m)]"
      "app s2 = a"
      by (simp_all add: s2_def t1)
    obtain cr a' where c: "commit C a = (cr, a')" using prod.exhaust by blast
    have r2: "replay C [Dispatched (key m), Finished (key m), CommitCalled (key m)]
                (Some m, False, ms, app s) = Some (Some m, True, ms, a')"
      using \<open>parse C (rec_value m) = Inr job\<close> h c by (simp add: dealt_def)
    show ?thesis
    proof (cases cr)
      case None
      with assms \<open>parse C (rec_value m) = Inr job\<close> h Inr c t2(2)
      have "s' = clog DEBUG ''Committed offset'' (s2\<lparr>app := a'\<rparr>)"
        by (simp add: handle_message_def Let_def s1_def s2_def)
      then have "trace s' = trace s @ [Dispatched (key m), Finished (key m), CommitCalled (key m)]"
        "app s' = a'" using t2 by simp_all
      with r2 d show ?thesis by blast
    next
      case (Some e)
      with assms \<open>parse C (rec_value m) = Inr job\<close> h Inr c t2(2)
      have oe: "on_exception C m e (s2\<lparr>app := a'\<rparr>) = (r, s')"
        by (simp add: handle_message_def Let_def s1_def s2_def)
      from on_exception_replay [OF oe d, of ms] obtain blk where
        blk: "trace s' = trace (s2\<lparr>app := a'\<rparr>) @ blk"
        "replay C blk (Some m, True, ms, app (s2\<lparr>app := a'\<rparr>)) = Some (Some m, True, ms, app s')"
        by blast
      have "replay C ([Dispatched (key m), Finished (key m), CommitCalled (key m)] @ blk)
              (Some m, False, ms, app s) = Some (Some m, True, ms, app s')"
        unfolding replay_append r2 using blk(2) by simp
      moreover have "trace s' = trace s @ ([Dispatched (key m), Finished (key m), CommitCalled (key m)] @ blk)"
        using blk(1) t2(1) by simp
      ultimately show ?thesis using d by blast
    qed
  qed
qed

lemma consume_loop_replay:
  assumes "consume_loop C stream s = Some (r, s')"
    and "replay C (trace s) st0 = Some (cur, seen, messages stream, app s)"
    and "dealt C cur seen"
  shows "\<exists>cur' seen' ms'. replay C (trace s') st0 = Some (cur', seen', ms', app s')"
  using assms
proof (induction stream arbitrary: s cur seen)
  case Nil
  then show ?case by auto
next
  case (Cons f rest)
  show ?case
  proof (cases f)
    case (FetchRaises e)
    with Cons.prems show ?thesis by auto
  next
    case StopCalled
    with Cons.prems have cl: "consume_loop C rest (s\<lparr>running := False\<rparr>) = Some (r, s')" by simp
    have "replay C (trace (s\<lparr>running := False\<rparr>)) st0 =
          Some (cur, seen, messages rest, app (s\<lparr>running := False\<rparr>))"
      using Cons.prems(2) StopCalled by simp
    from Cons.IH [OF cl this Cons.prems(3)] show ?thesis .
  next
    case (Message m)
    define s0 where "s0 = emit (Received (key m)) s"
    have r0: "replay C (trace s0) st0 = Some (Some m, False, messages rest, app s0)"
      unfolding s0_def emit_simps replay_append
      using Cons.prems(2,3) Message by simp
    show ?thesis
    proof (cases "running s0")
      case False
      with Cons.prems(1) Message have "s' = s0" by (simp add: s0_def Let_def)
      with r0 show ?thesis by blast
    next
      case True
      from Cons.prems(1) Message True obtain hr s1 where
        hm: "handle_message C m s0 = Some (hr, s1)"
        by (cases "handle_message C m s0") (auto simp: s0_def Let_def)
      from handle_message_replay [OF hm, of "messages rest"] obtain blk sn where
        blk: "trace s1 = trace s0 @ blk" "dealt C (Some m) sn"
        "replay C blk (Some m, False, messages rest, app s0) = Some (Some m, sn, messages rest, app s1)"
        by blast
      have r1: "replay C (trace s1) st0 = Some (Some m, sn, messages rest, app s1)"
        unfolding blk(1) replay_append r0 using blk(3) by simp
      show ?thesis
      proof (cases hr)
        case (Some e)
        with Cons.prems(1) Message True hm have "s' = s1" by (simp add: s0_def Let_def)
        with r1 show ?thesis by blast
      next
        case None
        with Cons.prems(1) Message True hm have "consume_loop C rest s1 = Some (r, s')"
          by (simp add: s0_def Let_def)
        from Cons.IH [OF this r1 blk(2)] show ?thesis .
      qed
    qed
  qed
qed

lemma handle_message_None:
  "handle_message C m s = None \<longleftrightarrow>
     (\<exists>job. parse C (rec_value m) = Inr job \<and> message_handler C job (app s) = None)"
  by (cases "parse C (rec_value m)")
     (auto simp: handle_message_def Let_def split: option.splits prod.splits sum.splits)

lemma consume_loop_None:
  assumes "consume_loop C stream s = None"
  shows "\<exists>pre m post s1 job. stream = pre @ Message m # post \<and>
           consume_loop C pre s = Some (None, s1) \<and> running s1 \<and>
           parse C (rec_value m) = Inr job \<and> message_handler C job (app s1) = None"
  using assms
proof (induction stream arbitrary: s)
  case Nil
  then show ?case by simp
next
  case (Cons f rest)
  show ?case
  proof (cases f)
    case (FetchRaises e)
    with Cons.prems show ?thesis by simp
  next
    case StopCalled
    with Cons.prems have "consume_loop C rest (s\<lparr>running := False\<rparr>) = None" by simp
    from Cons.IH [OF this] obtain pre m post s1 job where
      x: "rest = pre @ Message m # post"
      "consume_loop C pre (s\<lparr>running := False\<rparr>) = Some (None, s1)" "running s1"
      "parse C (rec_value m) = Inr job" "message_handler C job (app s1) = None" by blast
    have "f # rest = (StopCalled # pre) @ Message m # post" using x(1) StopCalled by simp
    moreover have "consume_loop C (StopCalled # pre) s = Some (None, s1)" using x(2) by simp
    ultimately show ?thesis using x(3,4,5) by blast
  next
    case (Message m)
    define s0 where "s0 = emit (Received (key m)) s"
    from Cons.prems Message have run: "running s0"
      by (cases "running s0") (simp_all add: s0_def Let_def)
    show ?thesis
    proof (cases "handle_message C m s0")
      case None
      then obtain job where j: "parse C (rec_value m) = Inr job" "message_handler C job (app s0) = None"
        unfolding handle_message_None by blast
      have "f # rest = [] @ Message m # rest" using Message by simp
      moreover have "consume_loop C [] s = Some (None, s)" by simp
      moreover have "running s" "message_handler C job (app s) = None"
        using run j(2) by (simp_all add: s0_def)
      ultimately show ?thesis using j(1) by blast
    next
      case (Some p)
      obtain hr s1 where p: "p = (hr, s1)" by (cases p)
      from Cons.prems Message run Some p have hr: "hr = None"
        and cl: "consume_loop C rest s1 = None"
        by (cases hr; simp add: s0_def Let_def)+
      from Cons.IH [OF cl] obtain pre m' post s2 job where
        x: "rest = pre @ Message m' # post" "consume_loop C pre s1 = Some (None, s2)" "running s2"
        "parse C (rec_value m') = Inr job" "message_handler C job (app s2) = None" by blast
      have "f # rest = (Message m # pre) @ Message m' # post" using x(1) Message by simp
      moreover have "consume_loop C (Message m # pre) s = Some (None, s2)"
        using run Some p hr x(2) by (simp add: s0_def Let_def)
      ultimately show ?thesis using x(3,4,5) by blast
    qed
  qed
qed

lemma consume_loop_continue:
  assumes "consume_loop C pre s = Some (None, s1)" and "running s1"
  shows "consume_loop C (pre @ rest) s = consume_loop C rest s1"
  using assms
proof (induction pre arbitrary: s)
  case Nil
  then show ?case by simp
next
  case (Cons f pre)
  show ?case
  proof (cases f)
    case (FetchRaises e)
    with Cons.prems show ?thesis by simp
  next
    case StopCalled
    with Cons.prems have "consume_loop C pre (s\<lparr>running := False\<rparr>) = Some (None, s1)" by simp
    from Cons.IH [OF this Cons.prems(2)] StopCalled show ?thesis by simp
  next
    case (Message m)
    define s0 where "s0 = emit (Received (key m)) s"
    have run: "running s0"
    proof (rule ccontr)
      assume "\<not> running s0"
      with Cons.prems(1) Message have "s1 = s0" by (simp add: s0_def Let_def)
      with Cons.prems(2) \<open>\<not> running s0\<close> show False by simp
    qed
    from Cons.prems(1) Message run obtain s2 where
      hm: "handle_message C m s0 = Some (None, s2)" and cl: "consume_loop C pre s2 = Some (None, s1)"
      by (cases "handle_message C m s0")
         (auto simp: s0_def Let_def split: option.splits prod.splits)
    from Cons.IH [OF cl Cons.prems(2)] Message run hm show ?thesis
      by (simp add: s0_def Let_def)
  qed
qed

lemma consume_None:
  "consume C stream s = None \<longleftrightarrow>
     started s \<and> consume_loop C stream (clog INFO ''Starting message consumption loop...'' s) = None"
  by (auto simp: consume_def split: option.splits prod.splits if_splits)

lemma consume_Some_None:
  "consume C stream s = Some (None, s1) \<longleftrightarrow>
     started s \<and>
     consume_loop C stream (clog INFO ''Starting message consumption loop...'' s) = Some (None, s1)"
  by (auto simp: consume_def split: option.splits prod.splits if_splits)

text \<open>
  Claim C10. For a run of \<^verbatim>\<open>consume\<close> that returns (normally or by an exception):
  the trace is that of a loop handling one record at a time (a record's handler call
  and commit calls lie between its read and the next read, the call has ended before
  anything else happens), so after every prefix of it at most one handler call is in
  flight; the records are read in the order of the stream and committed in the order
  they were read; \<^verbatim>\<open>_tasks\<close> is as it was, no call is started on the side. The trace is
  what the loop did: calling the handler at each dispatch, on the current record's job
  and in the state left by everything before it, and \<^verbatim>\<open>commit\<close> at each commit, takes
  the state the run started in to the state it ended in, reads exactly the records
  the trace reads, and finds every record whose payload validates dispatched before its
  commit and before the next read.

  A run does not return exactly when the loop, still running after a part of the
  stream, takes a record whose payload validates and the handler call for it never
  returns: the loop waits in that call, and neither a commit nor a read comes after it.
\<close>

theorem consume_is_sequential:
  assumes "trace s = []"
  shows "(consume C stream s = Some (r, s') \<longrightarrow>
            sequential (trace s') \<and>
            (\<forall>n \<le> length (trace s'). in_flight (take n (trace s')) = 0 \<or> in_flight (take n (trace s')) = 1) \<and>
            prefix (reads (trace s')) (map key (messages stream)) \<and>
            subseq (remdups_adj (commits (trace s'))) (reads (trace s')) \<and>
            tasks s' = tasks s \<and>
            (\<exists>cur seen. replay C (trace s') (None, False, messages stream, app s) =
               Some (cur, seen, drop (length (reads (trace s'))) (messages stream), app s'))) \<and>
         (consume C stream s = None \<longleftrightarrow>
            (\<exists>pre m post s1 job. stream = pre @ Message m # post \<and>
               consume C pre s = Some (None, s1) \<and> running s1 \<and>
               parse C (rec_value m) = Inr job \<and> message_handler C job (app s1) = None))"
proof (rule conjI)
  show "consume C stream s = Some (r, s') \<longrightarrow>
        sequential (trace s') \<and>
        (\<forall>n \<le> length (trace s'). in_flight (take n (trace s')) = 0 \<or> in_flight (take n (trace s')) = 1) \<and>
        prefix (reads (trace s')) (map key (messages stream)) \<and>
        subseq (remdups_adj (commits (trace s'))) (reads (trace s')) \<and>
        tasks s' = tasks s \<and>
        (\<exists>cur seen. replay C (trace s') (None, False, messages stream, app s) =
           Some (cur, seen, drop (length (reads (trace s'))) (messages stream), app s'))"
  proof (rule impI)
    assume run: "consume C stream s = Some (r, s')"
    show "sequential (trace s') \<and>
          (\<forall>n \<le> length (trace s'). in_flight (take n (trace s')) = 0 \<or> in_flight (take n (trace s')) = 1) \<and>
          prefix (reads (trace s')) (map key (messages stream)) \<and>
          subseq (remdups_adj (commits (trace s'))) (reads (trace s')) \<and>
          tasks s' = tasks s \<and>
          (\<exists>cur seen. replay C (trace s') (None, False, messages stream, app s) =
             Some (cur, seen, drop (length (reads (trace s'))) (messages stream), app s'))"
    proof (cases "started s")
      case False
      with run have "s' = s" by (simp add: consume_def)
      with assms show ?thesis by (auto simp: sequential_def)
    next
      case True
      define s0 where "s0 = clog INFO ''Starting message consumption loop...'' s"
      have t0: "trace s0 = []" "tasks s0 = tasks s" "app s0 = app s"
        using assms by (simp_all add: s0_def)
      from run True obtain r1 s1 where cl: "consume_loop C stream s0 = Some (r1, s1)"
        and s': "trace s' = trace s1" "tasks s' = tasks s1" "app s' = app s1"
        by (cases "consume_loop C stream s0")
           (auto simp: consume_def s0_def split: option.splits if_splits)
      have p0: "phase_run Idle (trace s0) = Some Idle" "settled Idle" by (simp_all add: t0 settled_def)
      from consume_loop_trace [OF cl p0] obtain ph where
        ph: "phase_run Idle (trace s1) = Some ph" "settled ph"
        and pre: "prefix (reads (trace s1)) (map key (messages stream))"
        and tk: "tasks s1 = tasks s" by (auto simp: t0)
      have seq: "sequential (trace s1)" using ph by (cases ph) (simp_all add: sequential_def settled_def)
      have fl: "\<forall>n \<le> length (trace s1). in_flight (take n (trace s1)) = 0 \<or> in_flight (take n (trace s1)) = 1"
      proof (intro allI impI)
        fix n assume "n \<le> length (trace s1)"
        from phase_run_take [OF ph(1), of n] obtain p where p: "phase_run Idle (take n (trace s1)) = Some p"
          by blast
        from phase_run_busy [OF p] have "in_flight (take n (trace s1)) = busy p" by (simp add: busy_def)
        then show "in_flight (take n (trace s1)) = 0 \<or> in_flight (take n (trace s1)) = 1"
          by (cases p) (simp_all add: busy_def)
      qed
      have ord: "subseq (remdups_adj (commits (trace s1))) (reads (trace s1))"
        using phase_run_commit_order [OF ph(1)] by simp
      have r0: "replay C (trace s0) (None, False, messages stream, app s) =
                Some (None, False, messages stream, app s0)"
        by (simp add: t0)
      have d0: "dealt C None False" by (simp add: dealt_def)
      from consume_loop_replay [OF cl r0 d0] obtain cur sn ms' where
        rp: "replay C (trace s1) (None, False, messages stream, app s) = Some (cur, sn, ms', app s1)"
        by blast
      from replay_pending [OF rp] have "ms' = drop (length (reads (trace s1))) (messages stream)" .
      with rp have "\<exists>cur seen. replay C (trace s1) (None, False, messages stream, app s) =
             Some (cur, seen, drop (length (reads (trace s1))) (messages stream), app s1)" by blast
      with seq fl pre ord tk s' show ?thesis by simp
    qed
  qed
next
  define s0 where "s0 = clog INFO ''Starting message consumption loop...'' s"
  show "consume C stream s = None \<longleftrightarrow>
            (\<exists>pre m post s1 job. stream = pre @ Message m # post \<and>
               consume C pre s = Some (None, s1) \<and> running s1 \<and>
               parse C (rec_value m) = Inr job \<and> message_handler C job (app s1) = None)"
  proof
    assume "consume C stream s = None"
    then have st: "started s" and cl: "consume_loop C stream s0 = None"
      by (simp_all add: consume_None s0_def)
    from consume_loop_None [OF cl] obtain pre m post s1 job where
      x: "stream = pre @ Message m # post" "consume_loop C pre s0 = Some (None, s1)" "running s1"
      "parse C (rec_value m) = Inr job" "message_handler C job (app s1) = None" by blast
    from st x(2) have "consume C pre s = Some (None, s1)"
      by (simp add: consume_Some_None s0_def)
    with x(1,3,4,5) show "\<exists>pre m post s1 job. stream = pre @ Message m # post \<and>
               consume C pre s = Some (None, s1) \<and> running s1 \<and>
               parse C (rec_value m) = Inr job \<and> message_handler C job (app s1) = None" by blast
  next
    assume "\<exists>pre m post s1 job. stream = pre @ Message m # post \<and>
               consume C pre s = Some (None, s1) \<and> running s1 \<and>
               parse C (rec_value m) = Inr job \<and> message_handler C job (app s1) = None"
    then obtain pre m post s1 job where
      x: "stream = pre @ Message m # post" "consume C pre s = Some (None, s1)" "running s1"
      "parse C (rec_value m) = Inr job" "message_handler C job (app s1) = None" by blast
    from x(2) have st: "started s" and cl: "consume_loop C pre s0 = Some (None, s1)"
      by (simp_all add: consume_Some_None s0_def)
    have "handle_message C m (emit (Received (key m)) s1) = None"
      unfolding handle_message_None using x(4,5) by simp
    then have "consume_loop C (Message m # post) s1 = None"
      using x(3) by (simp add: Let_def)
    with consume_loop_continue [OF cl x(3), of "Message m # post"] x(1)
    have "consume_loop C stream s0 = None" by simp
    with st show "consume C stream s = None" by (simp add: consume_None s0_def)
  qed
qed

lemma commits_append: "commits (xs @ ys) = commits xs @ commits ys"
  by (induction xs rule: commits.induct) simp_all

lemma handler_result_is_ignored:
  assumes "parse C (rec_value m) = Inr job"
    and "message_handler C job (app s) = Some (Inr res, a)"
    and "commit C a = (None, a')"
  shows "\<exists>s'. handle_message C m s = Some (None, s') \<and> app s' = a' \<and>
           trace s' = trace s @ [Dispatched (key m), Finished (key m), CommitCalled (key m)]"
  using assms by (simp add: handle_message_def Let_def)

lemma parse_error_commits_only_on_JSONDecodeError:
  assumes "parse C (rec_value m) = Inl e"
  shows "\<exists>r s'. handle_message C m s = Some (r, s') \<and>
           trace s' = trace s @ (if exn_class e = JSONDecodeError then [CommitCalled (key m)] else [])"
  using assms by (simp add: handle_message_def on_exception_def Let_def split: prod.splits)

text \<open>The definitions a concrete run of the consumer unfolds.\<close>

lemmas eval_consumer = consume_def handle_message_def on_exception_def emit_def clog_def key_def
  agent_def fake_agent_def fake_validate_def fake_commit_def fake_consumer_def fake_record_def
  good_payload_def malformed_payload_def empty_payload_def process_def process_internal_def

text \<open>
  Claim C1 at a concrete input. The record's payload parses into a job whose text and
  html are empty; the pipeline's result for it has \<^verbatim>\<open>success = False\<close>; the loop, which
  never looks at the result, calls \<^verbatim>\<open>commit()\<close> for the record all the same.
\<close>

theorem failed_job_is_committed:
  "(case fake_validate empty_payload of
      Inl e \<Rightarrow> False
    | Inr job \<Rightarrow>
        (case process (fake_env [] False False False) job (fake_state 2 300) of
           Some (Inr res, s') \<Rightarrow>
             success res = False \<and> error_message res = Some ''Job has neither text nor HTML content''
         | _ \<Rightarrow> False)) \<and>
   map_option (\<lambda>(r, s). (r, trace s))
     (consume fake_agent [Message (fake_record empty_payload 7)] fake_consumer) =
     Some (None, [Received (0, 7), Dispatched (0, 7), Finished (0, 7), CommitCalled (0, 7)])"
  by (simp add: eval_consumer eval_pipeline eval_defs)

text \<open>
  Claim C2 at a concrete input. The payload fails validation with an exception that is
  not a \<^verbatim>\<open>json.JSONDecodeError\<close>; the loop takes the generic \<^verbatim>\<open>except Exception\<close>
  clause and the record is read but never committed.
\<close>

theorem invalid_payload_is_not_committed:
  "fake_validate malformed_payload = Inl (Exn ValidationError ''Field required'') \<and>
   exn_class (Exn ValidationError ''Field required'') \<noteq> JSONDecodeError \<and>
   map_option (\<lambda>(r, s). (r, trace s, commits (trace s)))
     (consume fake_agent [Message (fake_record malformed_payload 7)] fake_consumer) =
     Some (None, [Received (0, 7)], [])"
  by (simp add: eval_consumer eval_pipeline eval_defs)

theorem consume_is_sequential_witness:
  "trace (snd (the (consume fake_agent
      [Message (fake_record good_payload 0), Message (fake_record malformed_payload 1),
       Message (fake_record empty_payload 2)] fake_consumer))) =
     [Received (0, 0), Dispatched (0, 0), Finished (0, 0), CommitCalled (0, 0),
      Received (0, 1),
      Received (0, 2), Dispatched (0, 2), Finished (0, 2), CommitCalled (0, 2)] \<and>
   sequential (trace (snd (the (consume fake_agent
      [Message (fake_record good_payload 0), Message (fake_record malformed_payload 1),
       Message (fake_record empty_payload 2)] fake_consumer)))) \<and>
   subseq (remdups_adj (commits (trace (snd (the (consume fake_agent
      [Message (fake_record good_payload 0), Message (fake_record malformed_payload 1),
       Message (fake_record empty_payload 2)] fake_consumer))))))
     [(0, 0), (0, 1), (0, 2)] \<and>
   replay fake_agent
     [Received (0, 0), Dispatched (0, 0), Finished (0, 0), CommitCalled (0, 0),
      Received (0, 1),
      Received (0, 2), Dispatched (0, 2), Finished (0, 2), CommitCalled (0, 2)]
     (None, False,
      [fake_record good_payload 0, fake_record malformed_payload 1, fake_record empty_payload 2],
      fake_state 2 300) =
     Some (Some (fake_record empty_payload 2), True, [],
           app (snd (the (consume fake_agent
             [Message (fake_record good_payload 0), Message (fake_record malformed_payload 1),
              Message (fake_record empty_payload 2)] fake_consumer)))) \<and>
   jobs_processed (app (snd (the (consume fake_agent
      [Message (fake_record good_payload 0), Message (fake_record malformed_payload 1),
       Message (fake_record empty_payload 2)] fake_consumer)))) = 1 \<and>
   jobs_failed (app (snd (the (consume fake_agent
      [Message (fake_record good_payload 0), Message (fake_record malformed_payload 1),
       Message (fake_record empty_payload 2)] fake_consumer)))) = 1 \<and>
   consume fake_agent
      [Message (fake_record malformed_payload 0), Message (fake_record good_payload 1),
       Message (fake_record good_payload 2)]
      (fake_consumer\<lparr>app := (fake_state 2 300)\<lparr>semaphore := 0\<rparr>\<rparr>) = None"
proof -
  define stream where "stream = [Message (fake_record good_payload 0), Message (fake_record malformed_payload 1),
       Message (fake_record empty_payload 2)]"
  define s' where "s' = snd (the (consume fake_agent stream fake_consumer))"
  have tr: "trace s' = [Received (0, 0), Dispatched (0, 0), Finished (0, 0), CommitCalled (0, 0),
      Received (0, 1),
      Received (0, 2), Dispatched (0, 2), Finished (0, 2), CommitCalled (0, 2)]"
    unfolding s'_def stream_def by (simp add: eval_consumer eval_pipeline eval_defs)
  have run: "consume fake_agent stream fake_consumer = Some (None, s')"
    unfolding s'_def stream_def by (simp add: eval_consumer eval_pipeline eval_defs)
  have cnt: "jobs_processed (app s') = 1 \<and> jobs_failed (app s') = 1"
    unfolding s'_def stream_def by (simp add: eval_consumer eval_pipeline eval_defs)
  have t0: "trace fake_consumer = []" by (simp add: fake_consumer_def)
  note A = consume_is_sequential [OF t0, where C = fake_agent and stream = stream and r = None
      and s' = s', THEN conjunct1, THEN mp, OF run]
  define stuck where "stuck = fake_consumer\<lparr>app := (fake_state 2 300)\<lparr>semaphore := 0\<rparr>\<rparr>"
  define s1 where "s1 = snd (the (consume fake_agent [Message (fake_record malformed_payload 0)] stuck))"
  have b1: "consume fake_agent [Message (fake_record malformed_payload 0)] stuck = Some (None, s1)"
    unfolding s1_def stuck_def by (simp add: eval_consumer eval_pipeline eval_defs)
  have b2: "running s1" and b3: "app s1 = (fake_state 2 300)\<lparr>semaphore := 0\<rparr>"
    unfolding s1_def stuck_def by (simp_all add: eval_consumer eval_pipeline eval_defs)
  obtain job where b4: "parse fake_agent (rec_value (fake_record good_payload 1)) = Inr job"
    by (simp add: fake_agent_def agent_def fake_validate_def good_payload_def fake_record_def)
  have b5: "message_handler fake_agent job (app s1) = None"
    unfolding b3 by (simp add: fake_agent_def agent_def process_def)
  have t1: "trace stuck = []" by (simp add: stuck_def fake_consumer_def)
  have "\<exists>pre m post s1 job.
      [Message (fake_record malformed_payload 0), Message (fake_record good_payload 1),
       Message (fake_record good_payload 2)] = pre @ Message m # post \<and>
      consume fake_agent pre stuck = Some (None, s1) \<and> running s1 \<and>
      parse fake_agent (rec_value m) = Inr job \<and> message_handler fake_agent job (app s1) = None"
    by (intro exI [of _ "[Message (fake_record malformed_payload 0)]"]
          exI [of _ "fake_record good_payload 1"] exI [of _ "[Message (fake_record good_payload 2)]"]
          exI [of _ s1] exI [of _ job])
       (simp add: b1 b2 b4 b5)
  with consume_is_sequential [OF t1, where C = fake_agent and stream =
      "[Message (fake_record malformed_payload 0), Message (fake_record good_payload 1),
       Message (fake_record good_payload 2)]", THEN conjunct2]
  have B: "consume fake_agent
      [Message (fake_record malformed_payload 0), Message (fake_record good_payload 1),
       Message (fake_record good_payload 2)] stuck = None" by blast
  have c1: "sequential (trace s')" using A by blast
  have c2: "subseq (remdups_adj (commits (trace s'))) [(0, 0), (0, 1), (0, 2)]"
    using A [THEN conjunct2, THEN conjunct2, THEN conjunct2, THEN conjunct1] by (simp add: tr)
  have c3: "replay fake_agent
     [Received (0, 0), Dispatched (0, 0), Finished (0, 0), CommitCalled (0, 0),
      Received (0, 1),
      Received (0, 2), Dispatched (0, 2), Finished (0, 2), CommitCalled (0, 2)]
     (None, False,
      [fake_record good_payload 0, fake_record malformed_payload 1, fake_record empty_payload 2],
      fake_state 2 300) =
     Some (Some (fake_record empty_payload 2), True, [], app s')"
    unfolding s'_def stream_def by (simp add: dealt_def eval_consumer eval_pipeline eval_defs)
  from tr c1 c2 c3 cnt B
  show ?thesis unfolding s'_def [symmetric] stream_def [symmetric] stuck_def [symmetric] by simp
qed

end
